theory Spec2Isabelle
  imports Complex_Main "HOL-Library.Word" "HOL-Library.Multiset"
begin

unbundle bit_operations_syntax

section \<open>JavaScript values\<close>

text \<open>
  A JavaScript string is a sequence of UTF-16 code units; \<open>.length\<close> counts code units.
  The literals of the sources only use code points below 256, except the ellipsis
  U+2026 of the scheduler's punctuation class, so a literal is written as an Isabelle
  string whose characters are read as code points (\<open>latin1\<close>).

  A JavaScript number is a real number. In the scheduler and in the markup generator,
  whose results depend on it, every literal and every sum, difference, product and
  quotient is rounded to a double (\<open>binary64\<close>); the mixer and the encoder work on the
  samples with exact arithmetic. NaN and the infinities are outside the model.
\<close>

type_synonym js_string = "16 word list"

definition latin1 :: "string \<Rightarrow> js_string" where
  "latin1 s = map (\<lambda>c. word_of_nat (of_char c)) s"

text \<open>
  Rounding to the nearest integer, a tie going to the even one; the power of two of an
  integer; and the exponent \<open>e\<close> of a positive number \<open>x\<close>, for which \<open>2\<^sup>e \<le> x < 2\<^sup>e\<^sup>+\<^sup>1\<close>.
\<close>

definition round_half_even :: "real \<Rightarrow> int" where
  "round_half_even y =
     (let f = \<lfloor>y\<rfloor> in
      if y - of_int f < 1 / 2 then f
      else if y - of_int f > 1 / 2 then f + 1
      else if even f then f else f + 1)"

definition pow2 :: "int \<Rightarrow> real" where
  "pow2 e = (if 0 \<le> e then 2 ^ nat e else 1 / 2 ^ nat (- e))"

function binaryExponent :: "real \<Rightarrow> int" where
  "binaryExponent x =
     (if 2 \<le> x then binaryExponent (x / 2) + 1
      else if 0 < x \<and> x < 1 then binaryExponent (x * 2) - 1
      else 0)"
  by pat_completeness auto
termination
proof (relation "measure (\<lambda>x. if 2 \<le> x then nat \<lfloor>x\<rfloor> else if 0 < x \<and> x < 1 then nat \<lceil>1 / x\<rceil> else 0)")
  show "wf (measure (\<lambda>x::real. if 2 \<le> x then nat \<lfloor>x\<rfloor> else if 0 < x \<and> x < 1 then nat \<lceil>1 / x\<rceil> else 0))"
    by simp
next
  fix x :: real
  assume x: "2 \<le> x"
  have "\<lfloor>x / 2\<rfloor> < \<lfloor>x\<rfloor>"
  proof -
    have "x / 2 \<le> x - 1" using x by simp
    hence "\<lfloor>x / 2\<rfloor> \<le> \<lfloor>x - 1\<rfloor>" by (rule floor_mono)
    thus ?thesis by simp
  qed
  moreover have "0 < \<lfloor>x\<rfloor>" using x by simp
  ultimately show "(x / 2, x) \<in> measure (\<lambda>x. if 2 \<le> x then nat \<lfloor>x\<rfloor> else if 0 < x \<and> x < 1 then nat \<lceil>1 / x\<rceil> else 0)"
    using x by (auto simp add: not_le)
next
  fix x :: real
  assume "\<not> 2 \<le> x" and x: "0 < x \<and> x < 1"
  have one: "1 < 1 / x" using x by simp
  hence pos: "1 < \<lceil>1 / x\<rceil>" by (simp add: less_ceiling_iff)
  have "\<lceil>1 / (x * 2)\<rceil> < \<lceil>1 / x\<rceil>" if "x * 2 < 1"
  proof -
    have "2 < 1 / x" using that x by (simp add: field_simps)
    hence "1 / (x * 2) \<le> 1 / x - 1" using x by (simp add: field_simps)
    hence "\<lceil>1 / (x * 2)\<rceil> \<le> \<lceil>1 / x - 1\<rceil>" by (rule ceiling_mono)
    thus ?thesis by simp
  qed
  with pos x show "(x * 2, x) \<in> measure (\<lambda>x. if 2 \<le> x then nat \<lfloor>x\<rfloor> else if 0 < x \<and> x < 1 then nat \<lceil>1 / x\<rceil> else 0)"
    by (auto simp add: not_le)
qed

declare binaryExponent.simps [simp del]

text \<open>
  Rounding to the nearest double: the number is scaled by a power of two to 53 significant
  bits, rounded there and scaled back. The exponent is not bounded: the scheduler and the
  markup generator divide small integers and add, subtract and multiply numbers of
  moderate size, which neither overflows nor loses bits in the subnormal range.
\<close>

definition binary64 :: "real \<Rightarrow> real" where
  "binary64 x =
     (if x = 0 then 0
      else let e = binaryExponent \<bar>x\<bar> - 52
           in of_int (round_half_even (x / pow2 e)) * pow2 e)"

text \<open>\<^verbatim>\<open>x || d\<close> on an optional number: \<open>undefined\<close> and \<open>0\<close> are falsy.\<close>

definition number_or :: "real option \<Rightarrow> real \<Rightarrow> real" where
  "number_or x d = (case x of None \<Rightarrow> d | Some v \<Rightarrow> if v = 0 then d else v)"

section \<open>voiceSettings.ts: emotion transitions\<close>

text \<open>
  What a property lookup of \<^verbatim>\<open>calculateEmotionTransitionDuration\<close> can yield: \<open>undefined\<close>,
  \<open>null\<close>, a number, a string, or an object or function of the platform, which is named
  here by the property of \<^verbatim>\<open>Object.prototype\<close> that holds it.
\<close>

datatype js_value =
    JSUndefined
  | JSNull
  | JSNumber nat
  | JSString js_string
  | JSObject js_string

text \<open>The operand of \<^verbatim>\<open>||\<close> that counts as true.\<close>

fun truthy :: "js_value \<Rightarrow> bool" where
  "truthy JSUndefined = False"
| "truthy JSNull = False"
| "truthy (JSNumber n) = (n \<noteq> 0)"
| "truthy (JSString cs) = (cs \<noteq> [])"
| "truthy (JSObject name) = True"

text \<open>
  \<^verbatim>\<open>transitionMap: Record<string, Record<string, number>>\<close>, an object literal, as the
  association list of the properties it declares, in the order of the source.
\<close>

definition transitionMap :: "(js_string \<times> (js_string \<times> nat) list) list" where
  "transitionMap =
    [(latin1 ''sensuel'',
        [(latin1 ''excite'', 600), (latin1 ''jouissance'', 800), (latin1 ''murmure'', 400),
         (latin1 ''intense'', 700), (latin1 ''doux'', 300)]),
     (latin1 ''excite'',
        [(latin1 ''sensuel'', 600), (latin1 ''jouissance'', 400), (latin1 ''murmure'', 700),
         (latin1 ''intense'', 500), (latin1 ''doux'', 800)]),
     (latin1 ''jouissance'',
        [(latin1 ''sensuel'', 800), (latin1 ''excite'', 400), (latin1 ''murmure'', 900),
         (latin1 ''intense'', 300), (latin1 ''doux'', 1000)]),
     (latin1 ''murmure'',
        [(latin1 ''sensuel'', 400), (latin1 ''excite'', 700), (latin1 ''jouissance'', 900),
         (latin1 ''intense'', 800), (latin1 ''doux'', 300)]),
     (latin1 ''intense'',
        [(latin1 ''sensuel'', 700), (latin1 ''excite'', 500), (latin1 ''jouissance'', 300),
         (latin1 ''murmure'', 800), (latin1 ''doux'', 900)]),
     (latin1 ''doux'',
        [(latin1 ''sensuel'', 300), (latin1 ''excite'', 800), (latin1 ''jouissance'', 1000),
         (latin1 ''murmure'', 300), (latin1 ''intense'', 900)])]"

text \<open>
  The table and its rows are object literals, so a lookup that finds no declared property
  goes on to \<^verbatim>\<open>Object.prototype\<close>. These are the names of its properties: eleven
  functions, and \<^verbatim>\<open>__proto__\<close>, which reads as the prototype object itself.
\<close>

definition objectPrototype :: "js_string list" where
  "objectPrototype =
     map latin1
       [''constructor'', ''__defineGetter__'', ''__defineSetter__'', ''hasOwnProperty'',
        ''__lookupGetter__'', ''__lookupSetter__'', ''isPrototypeOf'', ''propertyIsEnumerable'',
        ''toString'', ''valueOf'', ''__proto__'', ''toLocaleString'']"

definition inherited :: "js_string \<Rightarrow> js_value" where
  "inherited name = (if name \<in> set objectPrototype then JSObject name else JSUndefined)"

text \<open>
  \<^verbatim>\<open>return transitionMap[currentEmotion]?.[nextEmotion] || 500;\<close>
  The first lookup finds a row of the table, a property of \<^verbatim>\<open>Object.prototype\<close> or
  nothing; \<^verbatim>\<open>?.\<close> stops at nothing. The second lookup is made in the row, or else in the
  object or function that the first one found: what the platform answers there is the
  parameter \<open>platformProperty\<close>. A result that is not truthy is replaced by 500.
\<close>

definition calculateEmotionTransitionDuration ::
  "(js_string \<Rightarrow> js_string \<Rightarrow> js_value) \<Rightarrow> js_string \<Rightarrow> js_string \<Rightarrow> js_value"
where
  "calculateEmotionTransitionDuration platformProperty currentEmotion nextEmotion =
     (let found =
            (case map_of transitionMap currentEmotion of
               Some row \<Rightarrow>
                 (case map_of row nextEmotion of
                    Some d \<Rightarrow> JSNumber d
                  | None \<Rightarrow> inherited nextEmotion)
             | None \<Rightarrow>
                 (case inherited currentEmotion of
                    JSObject name \<Rightarrow> platformProperty name nextEmotion
                  | other \<Rightarrow> JSUndefined))
      in if truthy found then found else JSNumber 500)"

section \<open>ssmlGenerator.ts: pauses\<close>

text \<open>The fields of \<^verbatim>\<open>TextAnalysis\<close> that \<^verbatim>\<open>addBreathingAndPauses\<close> reads.\<close>

record TextAnalysis =
  intensity :: real
  contextualMood :: js_string
  emphasis :: "js_string list"

text \<open>The regular expression class \<^verbatim>\<open>\s\<close>, on code units.\<close>

definition is_space :: "16 word \<Rightarrow> bool" where
  "is_space c \<longleftrightarrow>
     c \<in> {0x09, 0x0A, 0x0B, 0x0C, 0x0D, 0x20, 0xA0, 0x1680, 0x2028, 0x2029, 0x202F, 0x205F,
          0x3000, 0xFEFF}
     \<or> (0x2000 \<le> c \<and> c \<le> 0x200A)"

text \<open>\<^verbatim>\<open>text.replace(/\s+/g, ' ')\<close>: every maximal run of white space becomes one space.\<close>

function collapseSpaces :: "js_string \<Rightarrow> js_string" where
  "collapseSpaces [] = []"
| "collapseSpaces (c # cs) =
     (if is_space c then 0x20 # collapseSpaces (dropWhile is_space cs)
      else c # collapseSpaces cs)"
  by pat_completeness auto
termination
  by (relation "measure length") (auto simp: less_Suc_eq_le length_dropWhile_le)

definition trim :: "js_string \<Rightarrow> js_string" where
  "trim cs = rev (dropWhile is_space (rev (dropWhile is_space cs)))"

text \<open>
  \<^verbatim>\<open>const pauseDuration = Math.min(1500, 1000 + (analysis.intensity * 700));\<close>
\<close>

definition pauseDuration :: "TextAnalysis \<Rightarrow> real" where
  "pauseDuration analysis = min 1500 (binary64 (1000 + binary64 (intensity analysis * 700)))"

text \<open>Decimal digits of a natural number.\<close>

function decimal :: "nat \<Rightarrow> js_string" where
  "decimal n = (if n < 10 then [0x30 + word_of_nat n]
                else decimal (n div 10) @ [0x30 + word_of_nat (n mod 10)])"
  by pat_completeness auto
termination
  by (relation "measure id") auto

declare decimal.simps [simp del]

text \<open>
  A number in a template literal: a non-negative integer below \<open>2\<^sup>5\<^sup>3\<close> is printed as its
  decimal digits. How the platform prints any other number (with a sign, a decimal point,
  an exponent or rounded digits) is the parameter \<open>printOther\<close> of the model.
\<close>

definition numberToString :: "(real \<Rightarrow> js_string) \<Rightarrow> real \<Rightarrow> js_string" where
  "numberToString printOther d =
     (if d = real (nat \<lfloor>d\<rfloor>) \<and> d < 2 ^ 53 then decimal (nat \<lfloor>d\<rfloor>) else printOther d)"

text \<open>The template literal \<^verbatim>\<open><break time="${d}ms"/>\<close>.\<close>

definition breakTag :: "(real \<Rightarrow> js_string) \<Rightarrow> real \<Rightarrow> js_string" where
  "breakTag printOther d =
     latin1 ''<break time=\"'' @ numberToString printOther d @ latin1 ''ms\"/>''"

text \<open>
  \<^verbatim>\<open>text.replace(/\.\.\./g, r)\<close>: the matches are found from left to right and do not
  overlap.
\<close>

fun replaceEllipsis :: "js_string \<Rightarrow> js_string \<Rightarrow> js_string" where
  "replaceEllipsis r (a # b # c # cs) =
     (if a = 0x2E \<and> b = 0x2E \<and> c = 0x2E then r @ replaceEllipsis r cs
      else a # replaceEllipsis r (b # c # cs))"
| "replaceEllipsis r cs = cs"

text \<open>
  The callback of \<^verbatim>\<open>text.replace(/([.!?])/g, (match) => ...)\<close>: the duration chosen
  for the matched character.
\<close>

definition matchDuration :: "real \<Rightarrow> 16 word \<Rightarrow> real" where
  "matchDuration pd match =
     (if match = 0x3F then binary64 (pd * binary64 1.1)
      else if match = 0x21 then binary64 (pd * binary64 1.5)
      else pd)"

definition replaceSentenceEnds :: "(real \<Rightarrow> js_string) \<Rightarrow> real \<Rightarrow> js_string \<Rightarrow> js_string" where
  "replaceSentenceEnds printOther pd cs =
     concat (map (\<lambda>c. if c \<in> {0x2E, 0x21, 0x3F}
                        then c # breakTag printOther (matchDuration pd c)
                        else [c]) cs)"

text \<open>\<^verbatim>\<open>text.replace(/,/g, `,<break time="${pauseDuration * 0.7}ms"/>`)\<close>\<close>

definition replaceCommas :: "(real \<Rightarrow> js_string) \<Rightarrow> real \<Rightarrow> js_string \<Rightarrow> js_string" where
  "replaceCommas printOther pd cs =
     concat (map (\<lambda>c. if c = 0x2C then c # breakTag printOther (binary64 (pd * binary64 0.7))
                        else [c]) cs)"

text \<open>
  Lines 34 to 47 of \<^verbatim>\<open>addBreathingAndPauses\<close>: the text with its pauses, before the
  prosody directive is wrapped around it and the emphasised words are marked.
\<close>

definition addPauses :: "(real \<Rightarrow> js_string) \<Rightarrow> js_string \<Rightarrow> TextAnalysis \<Rightarrow> js_string" where
  "addPauses printOther text analysis =
     (let text = trim (collapseSpaces text);
          pd = pauseDuration analysis;
          text = replaceEllipsis (breakTag printOther (binary64 (pd * binary64 1.2))) text;
          text = replaceSentenceEnds printOther pd text;
          text = replaceCommas printOther pd text
      in text)"

text \<open>Whether three full stops follow one another somewhere in the text.\<close>

fun containsEllipsis :: "js_string \<Rightarrow> bool" where
  "containsEllipsis (a # b # c # cs) =
     ((a = 0x2E \<and> b = 0x2E \<and> c = 0x2E) \<or> containsEllipsis (b # c # cs))"
| "containsEllipsis cs = False"

text \<open>
  The pauses as the specification words them, in one pass over the text: an ellipsis is
  replaced by a pause of 1.2 times the base duration; \<open>!\<close>, \<open>?\<close>, \<open>.\<close> and \<open>,\<close> are
  followed by pauses of 1.5, 1.1, 1 and 0.7 times the base duration (\<open>pauseAfter\<close>). The
  factors and the products are doubles.
\<close>

definition pauseAfter :: "(real \<Rightarrow> js_string) \<Rightarrow> real \<Rightarrow> 16 word \<Rightarrow> js_string" where
  "pauseAfter p base a =
     (if a = 0x21 then a # breakTag p (binary64 (base * binary64 1.5))
      else if a = 0x3F then a # breakTag p (binary64 (base * binary64 1.1))
      else if a = 0x2E then a # breakTag p base
      else if a = 0x2C then a # breakTag p (binary64 (base * binary64 0.7))
      else [a])"

fun pausesInOnePass :: "(real \<Rightarrow> js_string) \<Rightarrow> real \<Rightarrow> js_string \<Rightarrow> js_string" where
  "pausesInOnePass p base (a # b # c # cs) =
     (if a = 0x2E \<and> b = 0x2E \<and> c = 0x2E
      then breakTag p (binary64 (base * binary64 1.2)) @ pausesInOnePass p base cs
      else pauseAfter p base a @ pausesInOnePass p base (b # c # cs))"
| "pausesInOnePass p base [a, b] = pauseAfter p base a @ pausesInOnePass p base [b]"
| "pausesInOnePass p base [a] = pauseAfter p base a"
| "pausesInOnePass p base [] = []"

section \<open>Timeline scheduler: calculateSegmentTiming\<close>

text \<open>
  The scheduler reads \<^verbatim>\<open>segment.segment\<close> (the text), \<^verbatim>\<open>segment.speechRate\<close>,
  \<^verbatim>\<open>segment.fadeIn\<close> and \<^verbatim>\<open>segment.fadeOut\<close> of each element of its \<^verbatim>\<open>any[]\<close>.
\<close>

record TaggedSegment =
  segment :: js_string
  speechRate :: js_string
  fadeIn :: "real option"
  fadeOut :: "real option"

record TimingOptions =
  defaultFadeIn :: "real option"
  defaultFadeOut :: "real option"
  defaultCrossfade :: "real option"

text \<open>\<^verbatim>\<open>{...segment, startTime, duration, fadeIn, fadeOut}\<close>\<close>

record SegmentWithTiming =
  tagged :: TaggedSegment
  startTime :: real
  duration :: real
  fadeIn :: real
  fadeOut :: real

text \<open>
  The chain of comparisons of \<^verbatim>\<open>segment.speechRate\<close> with the four French rate names
  (very slow: 10, slow: 12, moderate: 15, fast: 18), and 13 for any other value. The
  accented letters of the literals are the code units U+00E8 and U+00E9.
\<close>

definition charsPerSecond :: "js_string \<Rightarrow> real" where
  "charsPerSecond rate =
     (if rate = latin1 (''tr'' @ [CHR 0xE8] @ ''s lent'') then 10
      else if rate = latin1 ''lent'' then 12
      else if rate = latin1 (''mod'' @ [CHR 0xE9] @ ''r'' @ [CHR 0xE9]) then 15
      else if rate = latin1 ''rapide'' then 18
      else 13)"

text \<open>\<^verbatim>\<open>(segment.segment.match(/[.!?\<dots>]/g) || []).length\<close>\<close>

definition pauseCount :: "js_string \<Rightarrow> nat" where
  "pauseCount text = length (filter (\<lambda>c. c \<in> {0x2E, 0x21, 0x3F, 0x2026}) text)"

definition estimateDuration :: "TaggedSegment \<Rightarrow> real" where
  "estimateDuration seg =
     (let estimatedDuration =
            binary64 (real (length (segment seg)) / charsPerSecond (speechRate seg));
          pauseDuration = binary64 (real (pauseCount (segment seg)) * binary64 0.3)
      in binary64 (estimatedDuration + pauseDuration))"

text \<open>
  The body of \<^verbatim>\<open>segments.map\<close>, with the variable \<^verbatim>\<open>currentTime\<close> that the callback
  updates passed from one element to the next:
  \<^verbatim>\<open>currentTime += totalDuration - defaultCrossfade\<close> rounds the difference and then
  the sum.
\<close>

fun timingFrom :: "real \<Rightarrow> real \<Rightarrow> real \<Rightarrow> real \<Rightarrow> TaggedSegment list \<Rightarrow> SegmentWithTiming list" where
  "timingFrom dFadeIn dFadeOut dCrossfade currentTime [] = []"
| "timingFrom dFadeIn dFadeOut dCrossfade currentTime (seg # rest) =
     (let totalDuration = estimateDuration seg;
          segmentWithTiming =
            \<lparr>tagged = seg,
             startTime = currentTime,
             duration = totalDuration,
             fadeIn = number_or (TaggedSegment.fadeIn seg) dFadeIn,
             fadeOut = number_or (TaggedSegment.fadeOut seg) dFadeOut\<rparr>
      in segmentWithTiming #
         timingFrom dFadeIn dFadeOut dCrossfade
           (binary64 (currentTime + binary64 (totalDuration - dCrossfade))) rest)"

definition calculateSegmentTiming :: "TaggedSegment list \<Rightarrow> TimingOptions \<Rightarrow> SegmentWithTiming list" where
  "calculateSegmentTiming segments options =
     timingFrom (number_or (defaultFadeIn options) (binary64 0.15))
                (number_or (defaultFadeOut options) (binary64 0.2))
                (number_or (defaultCrossfade options) (binary64 0.3))
                0 segments"

text \<open>The call \<^verbatim>\<open>calculateSegmentTiming(segments)\<close>: \<^verbatim>\<open>options = {}\<close>.\<close>

definition noOptions :: TimingOptions where
  "noOptions = \<lparr>defaultFadeIn = None, defaultFadeOut = None, defaultCrossfade = None\<rparr>"

section \<open>audioMixerService.ts\<close>

subsection \<open>Errors and platform objects\<close>

text \<open>
  What the service throws, or lets through from the platform:
  \<^item> \<open>ContextNotInitialized\<close>: the error with the message \<^verbatim>\<open>Contexte audio non initialise\<close> (accents dropped here);
  \<^item> \<open>EmptyInputError\<close>: the error with the message \<^verbatim>\<open>Aucun segment audio a mixer\<close>;
  \<^item> \<open>DecodeError\<close>: what \<^verbatim>\<open>fetch\<close> or \<^verbatim>\<open>decodeAudioData\<close> raised, rethrown by
    \<^verbatim>\<open>fetchAudioBuffer\<close>;
  \<^item> \<open>NotSupportedError\<close>: \<^verbatim>\<open>createBuffer\<close> with no channel or no frame;
  \<^item> \<open>IndexSizeError\<close>: \<^verbatim>\<open>getChannelData\<close> with a channel the buffer does not have;
  \<^item> \<open>RangeError\<close>: a \<^verbatim>\<open>DataView\<close> write outside the array buffer.
\<close>

datatype js_error =
    ContextNotInitialized
  | EmptyInputError
  | DecodeError
  | NotSupportedError
  | IndexSizeError
  | RangeError

definition and_then :: "js_error + 'a \<Rightarrow> ('a \<Rightarrow> js_error + 'b) \<Rightarrow> js_error + 'b" where
  "and_then m f = (case m of Inl e \<Rightarrow> Inl e | Inr x \<Rightarrow> f x)"

type_synonym byte = "8 word"

record AudioContext =
  sampleRate :: real

text \<open>
  An \<^verbatim>\<open>AudioBuffer\<close>: \<^verbatim>\<open>length\<close> frames (\<open>length_frames\<close>) in each of its channels;
  \<^verbatim>\<open>numberOfChannels\<close> is the number of channel arrays. The buffers that the platform
  hands out have at least one channel, and every channel has \<^verbatim>\<open>length\<close> samples.
\<close>

record AudioBuffer =
  sampleRate :: real
  length_frames :: nat
  channelData :: "real list list"

definition numberOfChannels :: "AudioBuffer \<Rightarrow> nat" where
  "numberOfChannels buffer = length (channelData buffer)"

text \<open>\<^verbatim>\<open>audioContext.createBuffer(numberOfChannels, length, sampleRate)\<close>: zero-filled.\<close>

definition createBuffer :: "nat \<Rightarrow> int \<Rightarrow> real \<Rightarrow> js_error + AudioBuffer" where
  "createBuffer channels len rate =
     (if channels = 0 \<or> len \<le> 0 then Inl NotSupportedError
      else Inr \<lparr>AudioBuffer.sampleRate = rate, length_frames = nat len,
                channelData = replicate channels (replicate (nat len) 0)\<rparr>)"

record AudioSegment =
  startTime :: real
  duration :: real
  audioUrl :: js_string
  environment :: "js_string option"
  volume :: "real option"
  fadeIn :: "real option"
  fadeOut :: "real option"

record MixedAudioResult =
  audioUrl :: js_string
  duration :: real
  segments :: "AudioSegment list"

text \<open>
  The state of the service that \<^verbatim>\<open>mixAudioSegments\<close> reads, and the platform calls it
  makes: \<^verbatim>\<open>fetchAudioBuffer\<close> (fetch and decode, or fail) and \<^verbatim>\<open>URL.createObjectURL\<close>
  on the bytes of the blob.
\<close>

record AudioMixerService =
  audioContext :: "AudioContext option"

record Platform =
  fetchAudioBuffer :: "js_string \<Rightarrow> js_error + AudioBuffer"
  createObjectURL :: "byte list \<Rightarrow> js_string"

subsection \<open>normalizeBuffer\<close>

text \<open>The first pair of loops: the largest absolute value, starting from 0.\<close>

definition maxValue :: "AudioBuffer \<Rightarrow> real" where
  "maxValue buffer =
     foldl (\<lambda>m channel. foldl (\<lambda>m x. if \<bar>x\<bar> > m then \<bar>x\<bar> else m) m channel) 0
       (channelData buffer)"

definition normalizeBuffer :: "AudioBuffer \<Rightarrow> real \<Rightarrow> AudioBuffer" where
  "normalizeBuffer buffer targetLevel =
     (if maxValue buffer \<le> targetLevel then buffer
      else let gainFactor = targetLevel / maxValue buffer
           in buffer\<lparr>channelData := map (map (\<lambda>x. x * gainFactor)) (channelData buffer)\<rparr>)"

subsection \<open>exportToBuffer\<close>

text \<open>
  \<^verbatim>\<open>ToInt16\<close>, \<^verbatim>\<open>ToUint16\<close> and \<^verbatim>\<open>ToUint32\<close> of a number: the fraction is dropped
  (towards zero) and the integer is taken modulo the width.
\<close>

definition js_trunc :: "real \<Rightarrow> int" where
  "js_trunc x = (if x \<ge> 0 then \<lfloor>x\<rfloor> else \<lceil>x\<rceil>)"

definition toUint32 :: "real \<Rightarrow> 32 word" where
  "toUint32 x = word_of_int (js_trunc x)"

definition toUint16 :: "real \<Rightarrow> 16 word" where
  "toUint16 x = word_of_int (js_trunc x)"

definition toInt16 :: "real \<Rightarrow> 16 word" where
  "toInt16 x = word_of_int (js_trunc x)"

text \<open>The \<^verbatim>\<open>DataView\<close> writes, little-endian where the source passes \<^verbatim>\<open>true\<close>.\<close>

definition setUint8 :: "byte list \<Rightarrow> nat \<Rightarrow> byte \<Rightarrow> js_error + byte list" where
  "setUint8 view byteOffset v =
     (if byteOffset + 1 \<le> length view then Inr (view[byteOffset := v]) else Inl RangeError)"

definition setUint16 :: "byte list \<Rightarrow> nat \<Rightarrow> 16 word \<Rightarrow> js_error + byte list" where
  "setUint16 view byteOffset v =
     (if byteOffset + 2 \<le> length view
      then Inr (view[byteOffset := ucast v, byteOffset + 1 := ucast (drop_bit 8 v)])
      else Inl RangeError)"

definition setInt16 :: "byte list \<Rightarrow> nat \<Rightarrow> 16 word \<Rightarrow> js_error + byte list" where
  "setInt16 view byteOffset v = setUint16 view byteOffset v"

definition setUint32 :: "byte list \<Rightarrow> nat \<Rightarrow> 32 word \<Rightarrow> js_error + byte list" where
  "setUint32 view byteOffset v =
     (if byteOffset + 4 \<le> length view
      then Inr (view[byteOffset := ucast v, byteOffset + 1 := ucast (drop_bit 8 v),
                     byteOffset + 2 := ucast (drop_bit 16 v),
                     byteOffset + 3 := ucast (drop_bit 24 v)])
      else Inl RangeError)"

definition writeString :: "byte list \<Rightarrow> nat \<Rightarrow> js_string \<Rightarrow> js_error + byte list" where
  "writeString view offset string =
     fold (\<lambda>i acc. and_then acc (\<lambda>view. setUint8 view (offset + i) (ucast (string ! i))))
       [0..<length string] (Inr view)"

text \<open>
  The inner loop of the audio data, for one channel: \<^verbatim>\<open>copyFromChannel\<close> has put the
  channel in \<^verbatim>\<open>channelData\<close>.
\<close>

definition writeChannel :: "AudioBuffer \<Rightarrow> nat \<Rightarrow> byte list \<Rightarrow> js_error + byte list" where
  "writeChannel buffer channel view =
     (let channelData = channelData buffer ! channel;
          offset = 44
      in fold (\<lambda>i acc. and_then acc (\<lambda>view.
                 let sample = max (- 1) (min 1 (channelData ! i))
                 in setInt16 view (offset + (i * numberOfChannels buffer + channel) * 2)
                      (toInt16 (sample * 0x7FFF))))
           [0..<length_frames buffer] (Inr view))"

definition exportToBuffer :: "AudioBuffer \<Rightarrow> js_error + byte list" where
  "exportToBuffer buffer =
     (let len = length_frames buffer * numberOfChannels buffer * 2;
          view = replicate (44 + len) 0
      in and_then (writeString view 0 (latin1 ''RIFF'')) (\<lambda>view.
         and_then (setUint32 view 4 (toUint32 (real (36 + len)))) (\<lambda>view.
         and_then (writeString view 8 (latin1 ''WAVE'')) (\<lambda>view.
         and_then (writeString view 12 (latin1 ''fmt '')) (\<lambda>view.
         and_then (setUint32 view 16 (toUint32 16)) (\<lambda>view.
         and_then (setUint16 view 20 (toUint16 1)) (\<lambda>view.
         and_then (setUint16 view 22 (toUint16 (real (numberOfChannels buffer)))) (\<lambda>view.
         and_then (setUint32 view 24 (toUint32 (AudioBuffer.sampleRate buffer))) (\<lambda>view.
         and_then (setUint32 view 28
                     (toUint32 (AudioBuffer.sampleRate buffer * real (numberOfChannels buffer) * 2))) (\<lambda>view.
         and_then (setUint16 view 32 (toUint16 (real (numberOfChannels buffer * 2)))) (\<lambda>view.
         and_then (setUint16 view 34 (toUint16 16)) (\<lambda>view.
         and_then (writeString view 36 (latin1 ''data'')) (\<lambda>view.
         and_then (setUint32 view 40 (toUint32 (real len))) (\<lambda>view.
         fold (\<lambda>channel acc. and_then acc (writeChannel buffer channel))
           [0..<numberOfChannels buffer] (Inr view)))))))))))))))"

text \<open>A reader of the container: little-endian fields and samples.\<close>

definition getUint32 :: "byte list \<Rightarrow> nat \<Rightarrow> 32 word" where
  "getUint32 view byteOffset =
     ucast (view ! byteOffset) OR push_bit 8 (ucast (view ! (byteOffset + 1)))
       OR push_bit 16 (ucast (view ! (byteOffset + 2)))
       OR push_bit 24 (ucast (view ! (byteOffset + 3)))"

definition getInt16 :: "byte list \<Rightarrow> nat \<Rightarrow> int" where
  "getInt16 view byteOffset =
     sint (ucast (view ! byteOffset) OR push_bit 8 (ucast (view ! (byteOffset + 1))) :: 16 word)"

subsection \<open>The container layout\<close>

text \<open>
  The layout that the encoder is compared with: little-endian fields, the 44-byte header
  with its \<^verbatim>\<open>RIFF\<close>, \<^verbatim>\<open>WAVE\<close>, \<^verbatim>\<open>fmt \<close> and \<^verbatim>\<open>data\<close> tags, and a sample as the
  16-bit integer obtained from the float clamped to \<open>[-1, 1]\<close>, scaled by 32767 and
  truncated.
\<close>

definition le16 :: "16 word \<Rightarrow> byte list" where
  "le16 w = [ucast w, ucast (drop_bit 8 w)]"

definition le32 :: "32 word \<Rightarrow> byte list" where
  "le32 w = [ucast w, ucast (drop_bit 8 w), ucast (drop_bit 16 w), ucast (drop_bit 24 w)]"

definition wavHeader :: "AudioBuffer \<Rightarrow> byte list" where
  "wavHeader b =
     (let C = numberOfChannels b; len = length_frames b * C * 2
      in [0x52, 0x49, 0x46, 0x46] @ le32 (word_of_nat (36 + len))
         @ [0x57, 0x41, 0x56, 0x45]
         @ [0x66, 0x6D, 0x74, 0x20] @ le32 16 @ le16 1 @ le16 (word_of_nat C)
         @ le32 (toUint32 (AudioBuffer.sampleRate b))
         @ le32 (toUint32 (AudioBuffer.sampleRate b * real C * 2))
         @ le16 (word_of_nat (C * 2)) @ le16 16
         @ [0x64, 0x61, 0x74, 0x61] @ le32 (word_of_nat len))"

definition pcm16 :: "real \<Rightarrow> 16 word" where
  "pcm16 x = toInt16 (max (- 1) (min 1 x) * 32767)"

text \<open>
  The writes of the two loops over the audio data without their range checks, as one
  pass over the pairs (channel, frame) in the order of the loops; the sample of channel
  \<open>c\<close> and frame \<open>i\<close> goes to the byte offset \<open>44 + (i * numberOfChannels + c) * 2\<close>.
\<close>

definition put16 :: "byte list \<Rightarrow> nat \<Rightarrow> 16 word \<Rightarrow> byte list" where
  "put16 view byteOffset v = view[byteOffset := ucast v, byteOffset + 1 := ucast (drop_bit 8 v)]"

definition sampleOffset :: "nat \<Rightarrow> nat \<times> nat \<Rightarrow> nat" where
  "sampleOffset C x = 44 + (snd x * C + fst x) * 2"

definition samplePairs :: "AudioBuffer \<Rightarrow> (nat \<times> nat) list" where
  "samplePairs b = List.product [0..<numberOfChannels b] [0..<length_frames b]"

definition putSamples :: "AudioBuffer \<Rightarrow> byte list \<Rightarrow> byte list" where
  "putSamples b view =
     fold (\<lambda>x view. put16 view (sampleOffset (numberOfChannels b) x)
                      (pcm16 (channelData b ! fst x ! snd x)))
       (samplePairs b) view"

subsection \<open>mixAudioSegments\<close>

text \<open>
  \<^verbatim>\<open>mixChannelData[targetSample] += v\<close> on a \<^verbatim>\<open>Float32Array\<close>: a write outside the
  array is ignored.
\<close>

definition typed_array_add :: "real list \<Rightarrow> int \<Rightarrow> real \<Rightarrow> real list" where
  "typed_array_add xs i v =
     (if 0 \<le> i \<and> nat i < length xs then xs[nat i := xs ! nat i + v] else xs)"

text \<open>The gain of sample \<open>s\<close> of a segment: lines 228 to 238.\<close>

definition sampleGain :: "AudioSegment \<Rightarrow> real \<Rightarrow> real \<Rightarrow> real \<Rightarrow> nat \<Rightarrow> nat \<Rightarrow> real" where
  "sampleGain seg fade_in fade_out rate segmentSamples s =
     (let gain = number_or (volume seg) 1.0;
          gain = (if real s < fade_in * rate then gain * (real s / (fade_in * rate)) else gain);
          gain = (if real s > real segmentSamples - fade_out * rate
                  then gain * ((real segmentSamples - real s) / (fade_out * rate)) else gain)
      in gain)"

text \<open>The loop over \<open>s\<close>, from \<open>s\<close> on, with its \<^verbatim>\<open>break\<close>.\<close>

function mixSamples ::
  "AudioSegment \<Rightarrow> real \<Rightarrow> real \<Rightarrow> real \<Rightarrow> int \<Rightarrow> nat \<Rightarrow> nat \<Rightarrow> real list \<Rightarrow> nat \<Rightarrow> real list \<Rightarrow> real list"
where
  "mixSamples seg fade_in fade_out rate startSample totalSamples segmentSamples segmentChannelData s
     mixChannelData =
     (if s < segmentSamples then
        (let targetSample = startSample + int s
         in if targetSample \<ge> int totalSamples then mixChannelData
            else mixSamples seg fade_in fade_out rate startSample totalSamples segmentSamples
                   segmentChannelData (Suc s)
                   (typed_array_add mixChannelData targetSample
                      (segmentChannelData ! s * sampleGain seg fade_in fade_out rate segmentSamples s)))
      else mixChannelData)"
  by pat_completeness auto
termination
  by (relation "measure (\<lambda>(seg, fade_in, fade_out, rate, startSample, totalSamples, segmentSamples,
        segmentChannelData, s, mixChannelData). segmentSamples - s)") auto

declare mixSamples.simps [simp del]

text \<open>
  One turn of the loop over the segments, after the buffer of the segment is decoded:
  \<open>hasNext\<close> is \<^verbatim>\<open>i < segments.length - 1\<close>.
\<close>

definition mixSegment ::
  "real \<Rightarrow> nat \<Rightarrow> AudioSegment \<Rightarrow> bool \<Rightarrow> AudioBuffer \<Rightarrow> AudioBuffer \<Rightarrow> js_error + AudioBuffer"
where
  "mixSegment rate totalSamples seg hasNext buffer mixBuffer =
     (let defaultCrossfadeDuration = 0.5;
          crossfadeOut = (if hasNext then min defaultCrossfadeDuration (AudioSegment.duration seg * 0.2) else 0);
          fade_in = number_or (fadeIn seg) 0.1;
          fade_out = number_or (fadeOut seg) crossfadeOut;
          startSample = \<lfloor>startTime seg * rate\<rfloor>;
          segmentSamples = length_frames buffer
      in if numberOfChannels buffer = 0 then Inl IndexSizeError
         else Inr (fold (\<lambda>channel mix.
                 mix\<lparr>channelData := (channelData mix)
                   [channel := mixSamples seg fade_in fade_out rate startSample totalSamples
                                 segmentSamples
                                 (channelData buffer ! min channel (numberOfChannels buffer - 1))
                                 0 (channelData mix ! channel)]\<rparr>)
               [0..<2] mixBuffer))"

text \<open>
  The gain that this turn of the loop gives to sample \<open>s\<close> of its segment: \<open>sampleGain\<close> with
  the fades as lines 205 to 210 choose them.
\<close>

definition segmentGain :: "real \<Rightarrow> AudioSegment \<Rightarrow> bool \<Rightarrow> nat \<Rightarrow> nat \<Rightarrow> real" where
  "segmentGain rate seg hasNext segmentSamples s =
     (let defaultCrossfadeDuration = 0.5;
          crossfadeOut = (if hasNext then min defaultCrossfadeDuration (AudioSegment.duration seg * 0.2) else 0);
          fade_in = number_or (fadeIn seg) 0.1;
          fade_out = number_or (fadeOut seg) crossfadeOut
      in sampleGain seg fade_in fade_out rate segmentSamples s)"

fun mixSegments ::
  "Platform \<Rightarrow> real \<Rightarrow> nat \<Rightarrow> AudioSegment list \<Rightarrow> AudioBuffer \<Rightarrow> js_error + AudioBuffer"
where
  "mixSegments platform rate totalSamples [] mixBuffer = Inr mixBuffer"
| "mixSegments platform rate totalSamples (seg # rest) mixBuffer =
     and_then (fetchAudioBuffer platform (AudioSegment.audioUrl seg)) (\<lambda>buffer.
     and_then (mixSegment rate totalSamples seg (rest \<noteq> []) buffer mixBuffer) (\<lambda>mixBuffer.
     mixSegments platform rate totalSamples rest mixBuffer))"

definition totalDurationOf :: "AudioSegment list \<Rightarrow> real" where
  "totalDurationOf segs =
     foldl (\<lambda>m seg. max m (startTime seg + AudioSegment.duration seg)) 0 segs"

text \<open>
  The general path on the sorted segments, up to and including \<^verbatim>\<open>normalizeBuffer\<close>:
  the mix buffer that is then encoded.
\<close>

definition mixAndNormalize :: "AudioContext \<Rightarrow> Platform \<Rightarrow> AudioSegment list \<Rightarrow> js_error + AudioBuffer" where
  "mixAndNormalize context platform segs =
     (let totalDuration = totalDurationOf segs;
          rate = AudioContext.sampleRate context;
          totalSamples = \<lceil>totalDuration * rate\<rceil>
      in and_then (createBuffer 2 totalSamples rate) (\<lambda>mixBuffer.
         and_then (mixSegments platform rate (nat totalSamples) segs mixBuffer) (\<lambda>mixBuffer.
         Inr (normalizeBuffer mixBuffer 0.9))))"

text \<open>
  The general path, from the sort to the bytes of the container: the bytes, the total
  duration and the sorted segments.
\<close>

definition mixGeneralPath ::
  "AudioContext \<Rightarrow> Platform \<Rightarrow> AudioSegment list \<Rightarrow> js_error + (byte list \<times> real \<times> AudioSegment list)"
where
  "mixGeneralPath context platform segs =
     (let segs = sort_key startTime segs;
          totalDuration = totalDurationOf segs
      in and_then (mixAndNormalize context platform segs) (\<lambda>mixBuffer.
         and_then (exportToBuffer mixBuffer) (\<lambda>finalBuffer.
         Inr (finalBuffer, totalDuration, segs))))"

definition mixAudioSegments ::
  "AudioMixerService \<Rightarrow> Platform \<Rightarrow> AudioSegment list \<Rightarrow> js_error + MixedAudioResult"
where
  "mixAudioSegments service platform segs =
     (case audioContext service of
        None \<Rightarrow> Inl ContextNotInitialized
      | Some context \<Rightarrow>
          if length segs = 0 then Inl EmptyInputError
          else if length segs = 1 then
            (let seg = segs ! 0
             in Inr \<lparr>MixedAudioResult.audioUrl = AudioSegment.audioUrl seg,
                     duration = AudioSegment.duration seg,
                     segments = [seg]\<rparr>)
          else
            and_then (mixGeneralPath context platform segs) (\<lambda>(finalBuffer, totalDuration, sorted).
              Inr \<lparr>MixedAudioResult.audioUrl = createObjectURL platform finalBuffer,
                   duration = totalDuration,
                   segments = sorted\<rparr>))"

section \<open>Example inputs\<close>

text \<open>
  Two segments that start together, at a context rate of 8000 Hz: each is planned for
  1.25 ms (10 frames), fades in over one frame and declares no fade-out and no volume.
  The platform decodes the URL of the first to two mono frames of 0.5 and the URL of the
  second to two mono frames of 0.25.
\<close>

definition exampleContext :: AudioContext where
  "exampleContext = \<lparr>AudioContext.sampleRate = 8000\<rparr>"

definition exampleSegmentA :: AudioSegment where
  "exampleSegmentA =
     \<lparr>startTime = 0, duration = 0.00125, audioUrl = latin1 ''a'', environment = None,
      volume = None, fadeIn = Some 0.000125, fadeOut = None\<rparr>"

definition exampleSegmentB :: AudioSegment where
  "exampleSegmentB =
     \<lparr>startTime = 0, duration = 0.00125, audioUrl = latin1 ''b'', environment = None,
      volume = None, fadeIn = Some 0.000125, fadeOut = None\<rparr>"

definition exampleBufferA :: AudioBuffer where
  "exampleBufferA =
     \<lparr>AudioBuffer.sampleRate = 8000, length_frames = 2, channelData = [[0.5, 0.5]]\<rparr>"

definition exampleBufferB :: AudioBuffer where
  "exampleBufferB =
     \<lparr>AudioBuffer.sampleRate = 8000, length_frames = 2, channelData = [[0.25, 0.25]]\<rparr>"

definition examplePlatform :: Platform where
  "examplePlatform =
     \<lparr>fetchAudioBuffer = (\<lambda>url.
        if url = latin1 ''a'' then Inr exampleBufferA
        else if url = latin1 ''b'' then Inr exampleBufferB
        else Inl DecodeError),
      createObjectURL = (\<lambda>bytes. latin1 ''blob:mix'')\<rparr>"

text \<open>A segment of one second that declares no volume and no fade.\<close>

definition examplePlainSegment :: AudioSegment where
  "examplePlainSegment =
     \<lparr>startTime = 0, duration = 1, audioUrl = latin1 ''a'', environment = None,
      volume = None, fadeIn = None, fadeOut = None\<rparr>"

text \<open>Three texts of 5, 9 and 5 characters without punctuation, at the slow rate.\<close>

definition exampleSchedule :: "TaggedSegment list" where
  "exampleSchedule =
     [\<lparr>segment = latin1 ''Salut'', speechRate = latin1 ''lent'', fadeIn = None, fadeOut = None\<rparr>,
      \<lparr>segment = latin1 ''Doucement'', speechRate = latin1 ''lent'', fadeIn = None, fadeOut = None\<rparr>,
      \<lparr>segment = latin1 ''Viens'', speechRate = latin1 ''lent'', fadeIn = None, fadeOut = None\<rparr>]"

text \<open>A stereo mix buffer of 10 frames that is silent except for its second frame.\<close>

definition exampleMix :: "real \<Rightarrow> AudioBuffer" where
  "exampleMix x =
     \<lparr>AudioBuffer.sampleRate = 8000, length_frames = 10,
      channelData = [[0, x, 0, 0, 0, 0, 0, 0, 0, 0], [0, x, 0, 0, 0, 0, 0, 0, 0, 0]]\<rparr>"

section \<open>Properties\<close>

lemma of_char_nat_less_256: "(of_char c :: nat) < 256"
proof -
  have "(of_char c :: nat) mod 256 < 256"
    by (rule mod_less_divisor) simp
  then show ?thesis by simp
qed

lemma latin1_eq_iff: "latin1 s = latin1 t \<longleftrightarrow> s = t"
proof -
  have "inj (\<lambda>c :: char. (word_of_nat (of_char c) :: 16 word))"
  proof (rule injI)
    fix a b :: char
    assume "(word_of_nat (of_char a) :: 16 word) = word_of_nat (of_char b)"
    then have "unat (word_of_nat (of_char a) :: 16 word) = unat (word_of_nat (of_char b) :: 16 word)"
      by simp
    moreover have "(of_char a :: nat) < 65536"
      by (rule less_trans [OF of_char_nat_less_256]) simp
    moreover have "(of_char b :: nat) < 65536"
      by (rule less_trans [OF of_char_nat_less_256]) simp
    ultimately have "(of_char a :: nat) = of_char b"
      by (simp add: unat_of_nat)
    then show "a = b" by simp
  qed
  then show ?thesis
    unfolding latin1_def by (simp add: inj_map_eq_map)
qed

subsection \<open>Rounding to doubles\<close>

text \<open>
  The exponent is the integer part of the binary logarithm. Rounding moves a number by at
  most the fraction \<open>1 / 2\<^sup>5\<^sup>3\<close> of its size and leaves a double as it is.
\<close>

lemma pow2_powr: "pow2 e = 2 powr of_int e"
proof (cases "0 \<le> e")
  case True
  then have "(2::real) powr of_int e = 2 powr real (nat e)" by simp
  also have "\<dots> = 2 ^ nat e" by (simp only: powr_realpow)
  finally show ?thesis using True by (simp add: pow2_def)
next
  case False
  then have "(2::real) powr of_int e = 2 powr (- real (nat (- e)))" by simp
  also have "\<dots> = 1 / 2 ^ nat (- e)"
    by (simp only: powr_minus powr_realpow) (simp add: field_simps)
  finally show ?thesis using False by (simp add: pow2_def)
qed

lemma binaryExponent_bounds:
  "0 < x \<Longrightarrow> 2 powr of_int (binaryExponent x) \<le> x \<and> x < 2 powr (of_int (binaryExponent x) + 1)"
proof (induction x rule: binaryExponent.induct)
  case (1 x)
  show ?case
  proof (cases "2 \<le> x")
    case True
    then have e: "binaryExponent x = binaryExponent (x / 2) + 1"
      by (subst binaryExponent.simps) simp
    from True have "0 < x / 2" by simp
    from "1.IH"(1) [OF True this] show ?thesis
      unfolding e by (simp add: powr_add field_simps)
  next
    case False
    show ?thesis
    proof (cases "x < 1")
      case True
      with False "1.prems" have e: "binaryExponent x = binaryExponent (x * 2) - 1"
        by (subst binaryExponent.simps) simp
      from "1.prems" have "0 < x * 2" by simp
      from "1.IH"(2) [OF False conjI [OF "1.prems" True] this] show ?thesis
        unfolding e by (simp add: powr_diff powr_add field_simps)
    next
      case large: False
      with False have "binaryExponent x = 0"
        by (subst binaryExponent.simps) simp
      with False large show ?thesis by simp
    qed
  qed
qed

lemma binaryExponent_log:
  assumes "0 < x"
  shows "binaryExponent x = \<lfloor>log 2 x\<rfloor>"
proof -
  have "\<lfloor>log 2 x\<rfloor> = binaryExponent x"
    using assms binaryExponent_bounds [OF assms] by (subst floor_log_eq_powr_iff) simp_all
  then show ?thesis by simp
qed

text \<open>The rounding in terms of the logarithm.\<close>

lemma binary64_log:
  "binary64 x =
     (if x = 0 then 0
      else let e = \<lfloor>log 2 \<bar>x\<bar>\<rfloor> - 52
           in of_int (round_half_even (x / 2 powr of_int e)) * 2 powr of_int e)"
  by (simp add: binary64_def binaryExponent_log pow2_powr Let_def)

lemma round_half_even_error: "\<bar>of_int (round_half_even y) - y\<bar> \<le> 1 / 2"
  unfolding round_half_even_def Let_def by (auto simp add: abs_if) linarith+

lemma binary64_error: "\<bar>binary64 x - x\<bar> \<le> \<bar>x\<bar> / 2 ^ 53"
proof (cases "x = 0")
  case True thus ?thesis by (simp add: binary64_log)
next
  case False
  define L where "L = \<lfloor>log 2 \<bar>x\<bar>\<rfloor>"
  define u where "u = (2::real) powr of_int (L - 52)"
  have u: "0 < u" by (simp add: u_def)
  have "(2::real) powr of_int L \<le> 2 powr log 2 \<bar>x\<bar>"
    unfolding L_def by (rule powr_mono) auto
  hence "(2::real) powr of_int L \<le> \<bar>x\<bar>" using False by simp
  moreover have "u = 2 powr of_int L / 2 ^ 52" by (simp add: u_def powr_diff powr_realpow)
  ultimately have ux: "u \<le> \<bar>x\<bar> / 2 ^ 52" by (simp add: field_simps)
  have b: "binary64 x = of_int (round_half_even (x / u)) * u"
    using False by (simp add: binary64_log Let_def L_def u_def)
  have "binary64 x - x = (of_int (round_half_even (x / u)) - x / u) * u"
    using u by (simp add: b left_diff_distrib)
  hence "\<bar>binary64 x - x\<bar> = \<bar>of_int (round_half_even (x / u)) - x / u\<bar> * u"
    using u by (simp add: abs_mult)
  also have "\<dots> \<le> (1 / 2) * u"
    using round_half_even_error [of "x / u"] u by (intro mult_right_mono) auto
  also have "\<dots> \<le> \<bar>x\<bar> / 2 ^ 53" using ux by simp
  finally show ?thesis .
qed

lemma round_half_even_of_int: "round_half_even (of_int m) = m"
  by (simp add: round_half_even_def)

lemma round_half_even_ge_floor: "\<lfloor>y\<rfloor> \<le> round_half_even y"
  by (simp add: round_half_even_def Let_def)

lemma round_half_even_le_ceiling: "round_half_even y \<le> \<lceil>y\<rceil>"
  unfolding round_half_even_def Let_def by (auto simp add: ceiling_altdef)

lemma binary64_at_exponent:
  assumes "2 ^ 52 \<le> \<bar>x\<bar> / 2 powr of_int e" and "\<bar>x\<bar> / 2 powr of_int e < 2 ^ 53"
  shows "binary64 x = of_int (round_half_even (x / 2 powr of_int e)) * 2 powr of_int e"
proof -
  have x: "x \<noteq> 0" using assms by auto
  have p: "(2::real) powr (of_int e + 52) = 2 powr of_int e * 2 ^ 52"
    by (simp add: powr_add powr_realpow)
  have p': "(2::real) powr (of_int e + 53) = 2 powr of_int e * 2 ^ 53"
    by (simp add: powr_add powr_realpow)
  have "\<lfloor>log 2 \<bar>x\<bar>\<rfloor> = e + 52"
    using x assms by (subst floor_log_eq_powr_iff) (auto simp add: p p' field_simps)
  hence e: "\<lfloor>log 2 \<bar>x\<bar>\<rfloor> - 52 = e" by simp
  show ?thesis using x unfolding binary64_log Let_def e by simp
qed

lemma binary64_idem: "binary64 (binary64 x) = binary64 x"
proof (cases "x = 0")
  case True thus ?thesis by (simp add: binary64_log)
next
  case False
  define L where "L = \<lfloor>log 2 \<bar>x\<bar>\<rfloor>"
  define e where "e = L - 52"
  define u where "u = (2::real) powr of_int e"
  define y where "y = x / u"
  define m where "m = round_half_even y"
  have u: "0 < u" by (simp add: u_def)
  have u52: "u * 2 ^ 52 = 2 powr of_int L"
    by (simp add: u_def e_def powr_diff powr_realpow)
  have "(2::real) powr of_int L \<le> 2 powr log 2 \<bar>x\<bar>"
    unfolding L_def by (rule powr_mono) auto
  hence lo: "u * 2 ^ 52 \<le> \<bar>x\<bar>" using False unfolding u52 by simp
  have "log 2 \<bar>x\<bar> < of_int L + 1" unfolding L_def by linarith
  hence "2 powr log 2 \<bar>x\<bar> < (2::real) powr (of_int L + 1)"
    by (simp only: powr_less_cancel_iff)
  hence "\<bar>x\<bar> < 2 powr of_int L * 2" using False by (simp add: powr_add)
  hence "\<bar>x\<bar> < (u * 2 ^ 52) * 2" unfolding u52 .
  hence hi: "\<bar>x\<bar> < u * 2 ^ 53" by simp
  have ylo: "2 ^ 52 \<le> \<bar>y\<bar>" using lo u by (simp add: y_def field_simps)
  have yhi: "\<bar>y\<bar> < 2 ^ 53" using hi u by (simp add: y_def field_simps)
  have b: "binary64 x = of_int m * u"
    using False by (simp add: binary64_log Let_def L_def u_def e_def m_def y_def)
  have mlo: "2 ^ 52 \<le> \<bar>m\<bar>"
  proof (cases "0 \<le> y")
    case True
    hence "(2::real) ^ 52 \<le> y" using ylo by simp
    hence "(2::int) ^ 52 \<le> \<lfloor>y\<rfloor>" by (simp add: le_floor_iff)
    thus ?thesis using round_half_even_ge_floor [of y] unfolding m_def by linarith
  next
    case False
    hence "y \<le> - (2 ^ 52)" using ylo by simp
    hence "\<lceil>y\<rceil> \<le> - ((2::int) ^ 52)" by (simp add: ceiling_le_iff)
    thus ?thesis using round_half_even_le_ceiling [of y] unfolding m_def by linarith
  qed
  have mhi: "\<bar>m\<bar> \<le> 2 ^ 53"
  proof (cases "0 \<le> y")
    case True
    hence "y \<le> 2 ^ 53" using yhi by simp
    hence "\<lceil>y\<rceil> \<le> (2::int) ^ 53" by (simp add: ceiling_le_iff)
    moreover have "0 \<le> \<lfloor>y\<rfloor>" using True by simp
    ultimately show ?thesis
      using round_half_even_le_ceiling [of y] round_half_even_ge_floor [of y] unfolding m_def by linarith
  next
    case False
    hence "- (2 ^ 53) \<le> y" using yhi by simp
    hence "- ((2::int) ^ 53) \<le> \<lfloor>y\<rfloor>" by (simp add: le_floor_iff)
    moreover have "\<lceil>y\<rceil> \<le> 0" using False by (simp add: ceiling_le_iff)
    ultimately show ?thesis
      using round_half_even_le_ceiling [of y] round_half_even_ge_floor [of y] unfolding m_def by linarith
  qed
  show ?thesis
  proof (cases "\<bar>m\<bar> < 2 ^ 53")
    case True
    have "binary64 (of_int m * u) = of_int (round_half_even (of_int m * u / 2 powr of_int e)) * 2 powr of_int e"
    proof (rule binary64_at_exponent)
      have "\<bar>of_int m * u\<bar> / 2 powr of_int e = \<bar>of_int m :: real\<bar>"
        using u by (simp add: u_def abs_mult)
      moreover have "(2::real) ^ 52 \<le> \<bar>of_int m\<bar>" using mlo by (simp flip: of_int_abs add: numeral_power_le_of_int_cancel_iff)
      moreover have "\<bar>of_int m :: real\<bar> < 2 ^ 53" using True by (simp flip: of_int_abs add: of_int_less_numeral_power_cancel_iff)
      ultimately show "2 ^ 52 \<le> \<bar>of_int m * u\<bar> / 2 powr of_int e"
        and "\<bar>of_int m * u\<bar> / 2 powr of_int e < 2 ^ 53" by simp_all
    qed
    also have "of_int m * u / 2 powr of_int e = of_int m" using u by (simp add: u_def)
    finally show ?thesis by (simp add: b round_half_even_of_int u_def)
  next
    case False
    hence m: "\<bar>m\<bar> = 2 ^ 53" using mhi by simp
    define h where "h = (if 0 \<le> m then (2::int) ^ 52 else - (2 ^ 52))"
    have mh: "m = 2 * h" using m by (auto simp add: h_def abs_if split: if_splits)
    have u2: "(2::real) powr of_int (e + 1) = 2 * u" by (simp add: u_def powr_add)
    have u2': "(2::real) powr (of_int e + 1) = 2 * u" by (simp add: u_def powr_add)
    have z: "of_int m * u = of_int h * (2 * u)" by (simp add: mh)
    have habs: "\<bar>of_int h :: real\<bar> = 2 ^ 52" by (simp add: h_def)
    have "binary64 (of_int m * u)
       = of_int (round_half_even (of_int m * u / 2 powr of_int (e + 1))) * 2 powr of_int (e + 1)"
    proof (rule binary64_at_exponent)
      have "\<bar>of_int m * u\<bar> / 2 powr of_int (e + 1) = \<bar>of_int h :: real\<bar>"
        using u unfolding u2 z by (simp add: abs_mult)
      thus "2 ^ 52 \<le> \<bar>of_int m * u\<bar> / 2 powr of_int (e + 1)"
        and "\<bar>of_int m * u\<bar> / 2 powr of_int (e + 1) < 2 ^ 53" by (simp_all add: habs)
    qed
    also have "of_int m * u / 2 powr of_int (e + 1) = of_int h"
      using u unfolding u2 z by simp
    finally show ?thesis by (simp add: b round_half_even_of_int u2' z)
  qed
qed

text \<open>
  The scale of a number other than 0: the unit \<open>u\<close> of its last place, for which its size
  lies between \<open>2\<^sup>5\<^sup>2 u\<close> and \<open>2\<^sup>5\<^sup>3 u\<close>.
\<close>

lemma binary64_scale:
  assumes "x \<noteq> 0" and "u = 2 powr of_int (\<lfloor>log 2 \<bar>x\<bar>\<rfloor> - 52)"
  shows "0 < u" and "u * 2 ^ 52 \<le> \<bar>x\<bar>" and "\<bar>x\<bar> < u * 2 ^ 53"
    and "binary64 x = of_int (round_half_even (x / u)) * u"
proof -
  define L where "L = \<lfloor>log 2 \<bar>x\<bar>\<rfloor>"
  note u_def = assms(2)
  show u: "0 < u" by (simp add: u_def)
  have u52: "u * 2 ^ 52 = 2 powr of_int L"
    by (simp add: u_def L_def powr_diff powr_realpow)
  have "(2::real) powr of_int L \<le> 2 powr log 2 \<bar>x\<bar>"
    unfolding L_def by (rule powr_mono) auto
  then show "u * 2 ^ 52 \<le> \<bar>x\<bar>" using assms(1) unfolding u52 by simp
  have "log 2 \<bar>x\<bar> < of_int L + 1" unfolding L_def by linarith
  then have "2 powr log 2 \<bar>x\<bar> < (2::real) powr (of_int L + 1)"
    by (simp only: powr_less_cancel_iff)
  then have "\<bar>x\<bar> < 2 powr of_int L * 2" using assms(1) by (simp add: powr_add)
  then have "\<bar>x\<bar> < (u * 2 ^ 52) * 2" unfolding u52 .
  then show "\<bar>x\<bar> < u * 2 ^ 53" by simp
  show "binary64 x = of_int (round_half_even (x / u)) * u"
    using assms(1) by (simp add: binary64_log Let_def u_def)
qed

text \<open>A rounding does not fall below a double that the number does not fall below.\<close>

lemma binary64_ge_double:
  assumes double: "binary64 r = r" and le: "r \<le> x"
  shows "r \<le> binary64 x"
proof (cases "x = 0")
  case True
  with le show ?thesis by (simp add: binary64_def)
next
  case x: False
  define u where "u = (2::real) powr of_int (\<lfloor>log 2 \<bar>x\<bar>\<rfloor> - 52)"
  note sx = binary64_scale [OF x u_def]
  define y where "y = x / u"
  have bx: "binary64 x = of_int (round_half_even y) * u"
    using sx(4) by (simp add: y_def)
  show ?thesis
  proof (cases "r = 0")
    case True
    with le x have "0 < x" by simp
    then have "0 \<le> y" using sx(1) by (simp add: y_def)
    then have "0 \<le> \<lfloor>y\<rfloor>" by simp
    with round_half_even_ge_floor [of y] have "0 \<le> round_half_even y" by linarith
    with sx(1) True show ?thesis by (simp add: bx)
  next
    case r: False
    define v where "v = (2::real) powr of_int (\<lfloor>log 2 \<bar>r\<bar>\<rfloor> - 52)"
    note sr = binary64_scale [OF r v_def]
    define m where "m = round_half_even (r / v)"
    have rm: "r = of_int m * v"
      using sr(4) double by (simp add: m_def)
    show ?thesis
    proof (cases "0 < x")
      case xpos: True
      then have ylo: "2 ^ 52 \<le> y"
        using sx(1) sx(2) by (simp add: y_def field_simps)
      then have "(2::int) ^ 52 \<le> \<lfloor>y\<rfloor>" by (simp add: le_floor_iff)
      with round_half_even_ge_floor [of y] have big: "(2::int) ^ 52 \<le> round_half_even y"
        by linarith
      then have "(of_int ((2::int) ^ 52) :: real) \<le> of_int (round_half_even y)"
        by (simp only: of_int_le_iff)
      then have "of_int ((2::int) ^ 52) * u \<le> of_int (round_half_even y) * u"
        using sx(1) by (intro mult_right_mono) simp_all
      then have bx52: "u * 2 ^ 52 \<le> binary64 x"
        unfolding bx by (simp add: mult.commute)
      show ?thesis
      proof (cases "0 < r")
        case False
        moreover have "0 \<le> u * 2 ^ 52"
          using sx(1) by simp
        ultimately show ?thesis
          using bx52 by linarith
      next
        case rpos: True
        have "log 2 r \<le> log 2 x" using rpos le by simp
        then have "\<lfloor>log 2 \<bar>r\<bar>\<rfloor> \<le> \<lfloor>log 2 \<bar>x\<bar>\<rfloor>"
          using rpos xpos by (simp add: floor_mono)
        then consider (same) "\<lfloor>log 2 \<bar>r\<bar>\<rfloor> = \<lfloor>log 2 \<bar>x\<bar>\<rfloor>"
          | (lower) "\<lfloor>log 2 \<bar>r\<bar>\<rfloor> + 1 \<le> \<lfloor>log 2 \<bar>x\<bar>\<rfloor>"
          by linarith
        then show ?thesis
        proof cases
          case same
          then have vu: "v = u" by (simp add: v_def u_def)
          from le rm vu sx(1) have "of_int m \<le> y"
            by (simp add: y_def field_simps)
          then have "m \<le> \<lfloor>y\<rfloor>" by (simp add: le_floor_iff)
          with round_half_even_ge_floor [of y] have "m \<le> round_half_even y" by linarith
          then have "of_int m * u \<le> of_int (round_half_even y) * u"
            using sx(1) by (simp add: mult_right_mono)
          then show ?thesis by (simp add: rm vu bx)
        next
          case lower
          then have "of_int (\<lfloor>log 2 \<bar>r\<bar>\<rfloor> - 52) + 1 \<le> (of_int (\<lfloor>log 2 \<bar>x\<bar>\<rfloor> - 52) :: real)"
            by simp
          then have "(2::real) powr (of_int (\<lfloor>log 2 \<bar>r\<bar>\<rfloor> - 52) + 1)
              \<le> 2 powr of_int (\<lfloor>log 2 \<bar>x\<bar>\<rfloor> - 52)"
            by (intro powr_mono) simp_all
          then have "(2::real) powr (of_int (\<lfloor>log 2 \<bar>r\<bar>\<rfloor> - 52) + 1) \<le> u"
            unfolding u_def .
          moreover have "(2::real) powr (of_int (\<lfloor>log 2 \<bar>r\<bar>\<rfloor> - 52) + 1) = v * 2"
            unfolding v_def by (simp only: powr_add) simp
          ultimately have "v * 2 \<le> u"
            by simp
          moreover have "r < v * 2 ^ 53" using sr(3) rpos by simp
          ultimately have "r < u * 2 ^ 52" by simp
          with bx52 show ?thesis by simp
        qed
      qed
    next
      case False
      with x have xneg: "x < 0" by simp
      with le have rneg: "r < 0" by simp
      have yhi: "- (2 ^ 53) < y"
        using sx(1) sx(3) xneg by (simp add: y_def field_simps)
      then have "- ((2::int) ^ 53) \<le> \<lfloor>y\<rfloor>" by (simp add: le_floor_iff)
      with round_half_even_ge_floor [of y] have big: "- ((2::int) ^ 53) \<le> round_half_even y"
        by linarith
      then have "(of_int (- ((2::int) ^ 53)) :: real) \<le> of_int (round_half_even y)"
        by (simp only: of_int_le_iff)
      then have "of_int (- ((2::int) ^ 53)) * u \<le> of_int (round_half_even y) * u"
        using sx(1) by (intro mult_right_mono) simp_all
      then have bx53: "- (u * 2 ^ 53) \<le> binary64 x"
        unfolding bx by simp
      have "log 2 (- x) \<le> log 2 (- r)" using rneg xneg le by simp
      then have "\<lfloor>log 2 \<bar>x\<bar>\<rfloor> \<le> \<lfloor>log 2 \<bar>r\<bar>\<rfloor>"
        using rneg xneg by (simp add: floor_mono)
      then consider (same) "\<lfloor>log 2 \<bar>r\<bar>\<rfloor> = \<lfloor>log 2 \<bar>x\<bar>\<rfloor>"
        | (higher) "\<lfloor>log 2 \<bar>x\<bar>\<rfloor> + 1 \<le> \<lfloor>log 2 \<bar>r\<bar>\<rfloor>"
        by linarith
      then show ?thesis
      proof cases
        case same
        then have vu: "v = u" by (simp add: v_def u_def)
        from le rm vu sx(1) have "of_int m \<le> y"
          by (simp add: y_def field_simps)
        then have "m \<le> \<lfloor>y\<rfloor>" by (simp add: le_floor_iff)
        with round_half_even_ge_floor [of y] have "m \<le> round_half_even y" by linarith
        then have "of_int m * u \<le> of_int (round_half_even y) * u"
          using sx(1) by (simp add: mult_right_mono)
        then show ?thesis by (simp add: rm vu bx)
      next
        case higher
        then have "of_int (\<lfloor>log 2 \<bar>x\<bar>\<rfloor> - 52) + 1 \<le> (of_int (\<lfloor>log 2 \<bar>r\<bar>\<rfloor> - 52) :: real)"
          by simp
        then have "(2::real) powr (of_int (\<lfloor>log 2 \<bar>x\<bar>\<rfloor> - 52) + 1)
            \<le> 2 powr of_int (\<lfloor>log 2 \<bar>r\<bar>\<rfloor> - 52)"
          by (intro powr_mono) simp_all
        then have "(2::real) powr (of_int (\<lfloor>log 2 \<bar>x\<bar>\<rfloor> - 52) + 1) \<le> v"
          unfolding v_def .
        moreover have "(2::real) powr (of_int (\<lfloor>log 2 \<bar>x\<bar>\<rfloor> - 52) + 1) = u * 2"
          unfolding u_def by (simp only: powr_add) simp
        ultimately have "u * 2 \<le> v"
          by simp
        moreover have "v * 2 ^ 52 \<le> - r" using sr(2) rneg by simp
        ultimately have "r \<le> - (u * 2 ^ 53)" by simp
        with bx53 show ?thesis by simp
      qed
    qed
  qed
qed

text \<open>A rounding of a number that is written out is computed by these equations.\<close>

lemmas binary64_eval = binary64_def binaryExponent.simps pow2_def round_half_even_def

subsection \<open>Emotion transitions\<close>

text \<open>
  For names that \<^verbatim>\<open>Object.prototype\<close> does not have, the transition duration is a number
  that does not depend on the order of the two emotions; an emotion paired with itself
  gives 500 ms, and so does every pair in which one name is not a row of the table.
\<close>

lemma inherited_own_name: "a \<notin> set objectPrototype \<Longrightarrow> inherited a = JSUndefined"
  by (simp add: inherited_def)

lemma transition_in_table:
  assumes "a \<notin> set objectPrototype" and "b \<notin> set objectPrototype"
  shows "calculateEmotionTransitionDuration platformProperty a b =
     JSNumber (case map_of transitionMap a of
        None \<Rightarrow> 500
      | Some row \<Rightarrow> (case map_of row b of None \<Rightarrow> 500 | Some d \<Rightarrow> if d = 0 then 500 else d))"
  using assms
  by (simp add: calculateEmotionTransitionDuration_def inherited_own_name Let_def
      split: option.splits)

lemma transition_of_own_names:
  assumes "a \<notin> set objectPrototype" and "b \<notin> set objectPrototype"
  shows "calculateEmotionTransitionDuration platformProperty a b
         = calculateEmotionTransitionDuration platformProperty b a"
    and "calculateEmotionTransitionDuration platformProperty a a = JSNumber 500"
    and "a \<notin> fst ` set transitionMap \<Longrightarrow>
           calculateEmotionTransitionDuration platformProperty a b = JSNumber 500
           \<and> calculateEmotionTransitionDuration platformProperty b a = JSNumber 500"
    and "\<exists>n. calculateEmotionTransitionDuration platformProperty a b = JSNumber n"
  unfolding transition_in_table [OF assms] transition_in_table [OF assms(2) assms(1)]
    transition_in_table [OF assms(1) assms(1)] transitionMap_def
  by (simp_all add: latin1_eq_iff)

text \<open>
  C10. The claim fails on the names that every object inherits: the pair of \<open>sensuel\<close> and
  \<open>constructor\<close> is absent from the table, and the result is not 500 but the function that
  the row inherits under that name, whatever the platform answers to other lookups. Nor
  is the result symmetric there: \<open>constructor\<close> followed by \<open>length\<close> gives what the platform
  has as the length of that function, if it is truthy (it is 1), and \<open>length\<close> followed by
  \<open>constructor\<close> gives 500.
\<close>

theorem inherited_name_is_not_default:
  "calculateEmotionTransitionDuration platformProperty (latin1 ''sensuel'') (latin1 ''constructor'')
     = JSObject (latin1 ''constructor'')
   \<and> calculateEmotionTransitionDuration platformProperty (latin1 ''sensuel'') (latin1 ''constructor'')
     \<noteq> JSNumber 500
   \<and> calculateEmotionTransitionDuration platformProperty (latin1 ''constructor'') (latin1 ''length'')
     = (if truthy (platformProperty (latin1 ''constructor'') (latin1 ''length''))
        then platformProperty (latin1 ''constructor'') (latin1 ''length'')
        else JSNumber 500)
   \<and> calculateEmotionTransitionDuration platformProperty (latin1 ''length'') (latin1 ''constructor'')
     = JSNumber 500"
  unfolding calculateEmotionTransitionDuration_def transitionMap_def inherited_def
    objectPrototype_def Let_def
  by (simp add: latin1_eq_iff)

subsection \<open>Single segment and empty input\<close>

text \<open>
  C2. With exactly one segment the result carries the URL of that segment as it is, its
  duration, and the list of that one segment, whatever the platform would answer to a
  fetch: nothing is decoded, mixed or normalized.
\<close>

theorem single_segment_identity:
  "mixAudioSegments \<lparr>audioContext = Some context\<rparr> platform [seg] =
     Inr \<lparr>MixedAudioResult.audioUrl = AudioSegment.audioUrl seg,
          duration = AudioSegment.duration seg,
          segments = [seg]\<rparr>"
  by (simp add: mixAudioSegments_def)

text \<open>
  C3. Mixing the empty list fails with the empty-input error, and no service state makes
  it return a result.
\<close>

theorem empty_input_fails:
  "mixAudioSegments \<lparr>audioContext = Some context\<rparr> platform [] = Inl EmptyInputError
   \<and> mixAudioSegments service platform [] \<noteq> Inr result"
  by (simp add: mixAudioSegments_def split: option.splits)

subsection \<open>Normalization\<close>

lemma foldl_peak_ge: "m \<le> foldl (\<lambda>m x. if \<bar>x\<bar> > m then \<bar>x\<bar> else m) m (xs :: real list)"
proof (induction xs arbitrary: m)
  case Nil show ?case by simp
next
  case (Cons x xs)
  have "m \<le> (if \<bar>x\<bar> > m then \<bar>x\<bar> else m)" by simp
  also have "\<dots> \<le> foldl (\<lambda>m x. if \<bar>x\<bar> > m then \<bar>x\<bar> else m) (if \<bar>x\<bar> > m then \<bar>x\<bar> else m) xs"
    by (rule Cons.IH)
  finally show ?case by simp
qed

lemma foldl_peak_bound: "x \<in> set xs \<Longrightarrow> \<bar>x\<bar> \<le> foldl (\<lambda>m x. if \<bar>x\<bar> > m then \<bar>x\<bar> else m) m (xs :: real list)"
proof (induction xs arbitrary: m)
  case Nil then show ?case by simp
next
  case (Cons y ys)
  show ?case
  proof (cases "x = y")
    case True
    have "\<bar>y\<bar> \<le> (if \<bar>y\<bar> > m then \<bar>y\<bar> else m)" by simp
    also have "\<dots> \<le> foldl (\<lambda>m x. if \<bar>x\<bar> > m then \<bar>x\<bar> else m) (if \<bar>y\<bar> > m then \<bar>y\<bar> else m) ys"
      by (rule foldl_peak_ge)
    finally show ?thesis using True by simp
  next
    case False
    with Cons.prems have "x \<in> set ys" by simp
    then show ?thesis using Cons.IH by simp
  qed
qed

lemma foldl_channels_ge:
  "m \<le> foldl (\<lambda>m channel. foldl (\<lambda>m x. if \<bar>x\<bar> > m then \<bar>x\<bar> else m) m channel) m (cs :: real list list)"
proof (induction cs arbitrary: m)
  case Nil show ?case by simp
next
  case (Cons c cs)
  have "m \<le> foldl (\<lambda>m x. if \<bar>x\<bar> > m then \<bar>x\<bar> else m) m c" by (rule foldl_peak_ge)
  also have "\<dots> \<le> foldl (\<lambda>m channel. foldl (\<lambda>m x. if \<bar>x\<bar> > m then \<bar>x\<bar> else m) m channel)
       (foldl (\<lambda>m x. if \<bar>x\<bar> > m then \<bar>x\<bar> else m) m c) cs"
    by (rule Cons.IH)
  finally show ?case by simp
qed

lemma foldl_channels_bound:
  "c \<in> set cs \<Longrightarrow> x \<in> set c \<Longrightarrow>
   \<bar>x\<bar> \<le> foldl (\<lambda>m channel. foldl (\<lambda>m x. if \<bar>x\<bar> > m then \<bar>x\<bar> else m) m channel) m (cs :: real list list)"
proof (induction cs arbitrary: m)
  case Nil then show ?case by simp
next
  case (Cons d ds)
  show ?case
  proof (cases "c = d")
    case True
    with Cons.prems have "\<bar>x\<bar> \<le> foldl (\<lambda>m x. if \<bar>x\<bar> > m then \<bar>x\<bar> else m) m d"
      by (simp add: foldl_peak_bound)
    also have "\<dots> \<le> foldl (\<lambda>m channel. foldl (\<lambda>m x. if \<bar>x\<bar> > m then \<bar>x\<bar> else m) m channel)
       (foldl (\<lambda>m x. if \<bar>x\<bar> > m then \<bar>x\<bar> else m) m d) ds"
      by (rule foldl_channels_ge)
    finally show ?thesis by simp
  next
    case False
    with Cons.prems have "c \<in> set ds" by simp
    then show ?thesis using Cons.prems(2) Cons.IH by simp
  qed
qed

lemma maxValue_bound: "c \<in> set (channelData b) \<Longrightarrow> x \<in> set c \<Longrightarrow> \<bar>x\<bar> \<le> maxValue b"
  unfolding maxValue_def by (rule foldl_channels_bound)

lemma maxValue_nonneg: "0 \<le> maxValue b"
  unfolding maxValue_def by (rule foldl_channels_ge)

lemma normalizeBuffer_within_target:
  assumes "0 \<le> t" "c \<in> set (channelData (normalizeBuffer b t))" "x \<in> set c"
  shows "\<bar>x\<bar> \<le> t"
proof (cases "maxValue b \<le> t")
  case True
  with assms have "\<bar>x\<bar> \<le> maxValue b" by (simp add: normalizeBuffer_def maxValue_bound)
  with True show ?thesis by simp
next
  case False
  then have pos: "0 < maxValue b" using assms(1) by simp
  from False assms obtain c0 x0 where c0: "c0 \<in> set (channelData b)" and x0: "x0 \<in> set c0"
    and x: "x = x0 * (t / maxValue b)"
    by (auto simp: normalizeBuffer_def Let_def)
  have "\<bar>x0\<bar> \<le> maxValue b" using c0 x0 by (rule maxValue_bound)
  then have "\<bar>x0\<bar> * (t / maxValue b) \<le> maxValue b * (t / maxValue b)"
    using assms(1) pos by (intro mult_right_mono) simp_all
  also have "\<dots> = t" using pos by simp
  finally show ?thesis using x assms(1) pos by (simp add: abs_mult)
qed

subsection \<open>Timeline scheduler\<close>

lemma length_latin1: "length (latin1 s) = length s"
  by (simp add: latin1_def)

lemma charsPerSecond_table:
  "charsPerSecond (latin1 (''tr'' @ [CHR 0xE8] @ ''s lent'')) = 10"
  "charsPerSecond (latin1 ''lent'') = 12"
  "charsPerSecond (latin1 (''mod'' @ [CHR 0xE9] @ ''r'' @ [CHR 0xE9])) = 15"
  "charsPerSecond (latin1 ''rapide'') = 18"
  by (simp_all add: charsPerSecond_def latin1_eq_iff)

lemma charsPerSecond_default:
  "rate \<notin> {latin1 (''tr'' @ [CHR 0xE8] @ ''s lent''), latin1 ''lent'',
            latin1 (''mod'' @ [CHR 0xE9] @ ''r'' @ [CHR 0xE9]), latin1 ''rapide''}
   \<Longrightarrow> charsPerSecond rate = 13"
  by (simp add: charsPerSecond_def)

lemma timingFrom_length: "length (timingFrom a b c t segs) = length segs"
  by (induction segs arbitrary: t) (simp_all add: Let_def)

lemma timingFrom_first:
  "segs \<noteq> [] \<Longrightarrow> SegmentWithTiming.startTime (timingFrom a b c t segs ! 0) = t"
  by (cases segs) (simp_all add: Let_def)

lemma timingFrom_duration:
  "i < length segs \<Longrightarrow>
   SegmentWithTiming.duration (timingFrom a b c t segs ! i) = estimateDuration (segs ! i)"
proof (induction segs arbitrary: t i)
  case Nil
  then show ?case by simp
next
  case (Cons s ss)
  show ?case
  proof (cases i)
    case 0
    then show ?thesis by (simp add: Let_def)
  next
    case (Suc j)
    with Cons.prems have "j < length ss" by simp
    then show ?thesis using Suc Cons.IH by (simp add: Let_def)
  qed
qed

text \<open>
  Each start time is the rounded sum of the one before and the rounded difference of the
  duration before and the crossfade.
\<close>

lemma timingFrom_step:
  "Suc i < length segs \<Longrightarrow>
   SegmentWithTiming.startTime (timingFrom a b c t segs ! Suc i)
   = binary64 (SegmentWithTiming.startTime (timingFrom a b c t segs ! i)
       + binary64 (SegmentWithTiming.duration (timingFrom a b c t segs ! i) - c))"
proof (induction segs arbitrary: t i)
  case Nil
  then show ?case by simp
next
  case (Cons s ss)
  show ?case
  proof (cases i)
    case 0
    with Cons.prems have "ss \<noteq> []" by auto
    then show ?thesis using 0 by (simp add: Let_def timingFrom_first)
  next
    case (Suc j)
    with Cons.prems have "Suc j < length ss" by simp
    then show ?thesis using Suc Cons.IH by (simp add: Let_def)
  qed
qed

text \<open>How far a rounded step is from the exact one.\<close>

lemma rounded_step_error:
  assumes "s' = binary64 (s + binary64 (d - binary64 0.3))"
  shows "\<bar>s' - s - (d - 0.3)\<bar>
         \<le> (\<bar>s + binary64 (d - binary64 0.3)\<bar> + \<bar>d - binary64 0.3\<bar> + 0.3) / 2 ^ 53"
proof -
  define c where "c = binary64 0.3"
  define t where "t = binary64 (d - c)"
  have 1: "\<bar>s' - (s + t)\<bar> \<le> \<bar>s + t\<bar> / 2 ^ 53"
    using binary64_error [of "s + t"] assms by (simp add: t_def c_def)
  have 2: "\<bar>t - (d - c)\<bar> \<le> \<bar>d - c\<bar> / 2 ^ 53"
    using binary64_error [of "d - c"] by (simp add: t_def)
  have 3: "\<bar>c - 0.3\<bar> \<le> 0.3 / 2 ^ 53"
    using binary64_error [of "0.3"] by (simp add: c_def)
  have "s' - s - (d - 0.3) = (s' - (s + t)) + (t - (d - c)) - (c - 0.3)"
    by simp
  hence "\<bar>s' - s - (d - 0.3)\<bar> \<le> \<bar>s' - (s + t)\<bar> + \<bar>t - (d - c)\<bar> + \<bar>c - 0.3\<bar>"
    by linarith
  also have "\<dots> \<le> \<bar>s + t\<bar> / 2 ^ 53 + \<bar>d - c\<bar> / 2 ^ 53 + 0.3 / 2 ^ 53"
    using 1 2 3 by linarith
  finally show ?thesis
    by (simp add: t_def c_def add_divide_distrib)
qed

text \<open>
  Every start time is a double, and start times do not decrease from a segment that lasts
  at least as long as the crossfade.
\<close>

lemma timingFrom_start_double:
  "binary64 t = t \<Longrightarrow> i < length segs \<Longrightarrow>
   binary64 (SegmentWithTiming.startTime (timingFrom a b c t segs ! i))
   = SegmentWithTiming.startTime (timingFrom a b c t segs ! i)"
proof (induction segs arbitrary: t i)
  case Nil
  then show ?case by simp
next
  case (Cons s ss)
  show ?case
  proof (cases i)
    case 0
    with Cons.prems show ?thesis by (simp add: Let_def)
  next
    case (Suc j)
    with Cons.prems have "j < length ss" by simp
    then show ?thesis using Suc Cons.IH [OF binary64_idem] by (simp add: Let_def)
  qed
qed

lemma timing_nondecreasing_after_long_segment:
  assumes "Suc i < length segs"
    and "number_or (defaultCrossfade options) (binary64 0.3) \<le> estimateDuration (segs ! i)"
  shows "SegmentWithTiming.startTime (calculateSegmentTiming segs options ! i)
         \<le> SegmentWithTiming.startTime (calculateSegmentTiming segs options ! Suc i)"
proof -
  define a where "a = number_or (defaultFadeIn options) (binary64 0.15)"
  define b where "b = number_or (defaultFadeOut options) (binary64 0.2)"
  define c where "c = number_or (defaultCrossfade options) (binary64 0.3)"
  define r where "r = timingFrom a b c 0 segs"
  have r: "calculateSegmentTiming segs options = r"
    by (simp add: r_def a_def b_def c_def calculateSegmentTiming_def)
  from assms(1) have i: "i < length segs" by simp
  have zero: "binary64 0 = 0"
    by (simp add: binary64_def)
  have double: "binary64 (SegmentWithTiming.startTime (r ! i)) = SegmentWithTiming.startTime (r ! i)"
    unfolding r_def by (rule timingFrom_start_double [OF zero i])
  have d: "c \<le> SegmentWithTiming.duration (r ! i)"
    using assms(2) by (simp add: r_def c_def timingFrom_duration [OF i])
  then have "0 \<le> SegmentWithTiming.duration (r ! i) - c"
    by simp
  with zero have "0 \<le> binary64 (SegmentWithTiming.duration (r ! i) - c)"
    by (rule binary64_ge_double)
  then have "SegmentWithTiming.startTime (r ! i)
      \<le> SegmentWithTiming.startTime (r ! i) + binary64 (SegmentWithTiming.duration (r ! i) - c)"
    by simp
  with double have "SegmentWithTiming.startTime (r ! i)
      \<le> binary64 (SegmentWithTiming.startTime (r ! i)
            + binary64 (SegmentWithTiming.duration (r ! i) - c))"
    by (rule binary64_ge_double)
  then show ?thesis
    unfolding r by (simp add: r_def timingFrom_step [OF assms(1)])
qed

lemma example_durations:
  "estimateDuration \<lparr>segment = latin1 ''Salut'', speechRate = latin1 ''lent'', fadeIn = None, fadeOut = None\<rparr>
     = 7505999378950827 / 2 ^ 54"
  "estimateDuration \<lparr>segment = latin1 ''Doucement'', speechRate = latin1 ''lent'', fadeIn = None, fadeOut = None\<rparr>
     = 3 / 4"
  "estimateDuration \<lparr>segment = latin1 ''Viens'', speechRate = latin1 ''lent'', fadeIn = None, fadeOut = None\<rparr>
     = 7505999378950827 / 2 ^ 54"
  "estimateDuration \<lparr>segment = latin1 ''Oui'', speechRate = latin1 ''lent'', fadeIn = None, fadeOut = None\<rparr>
     = 1 / 4"
proof -
  have "pauseCount (latin1 ''Salut'') = 0" and "pauseCount (latin1 ''Doucement'') = 0"
    and "pauseCount (latin1 ''Viens'') = 0" and "pauseCount (latin1 ''Oui'') = 0"
    by (simp_all add: pauseCount_def latin1_def)
  then show
  "estimateDuration \<lparr>segment = latin1 ''Salut'', speechRate = latin1 ''lent'', fadeIn = None, fadeOut = None\<rparr>
     = 7505999378950827 / 2 ^ 54"
  "estimateDuration \<lparr>segment = latin1 ''Doucement'', speechRate = latin1 ''lent'', fadeIn = None, fadeOut = None\<rparr>
     = 3 / 4"
  "estimateDuration \<lparr>segment = latin1 ''Viens'', speechRate = latin1 ''lent'', fadeIn = None, fadeOut = None\<rparr>
     = 7505999378950827 / 2 ^ 54"
  "estimateDuration \<lparr>segment = latin1 ''Oui'', speechRate = latin1 ''lent'', fadeIn = None, fadeOut = None\<rparr>
     = 1 / 4"
    by (simp_all add: estimateDuration_def charsPerSecond_table length_latin1 binary64_eval)
qed

lemma example_schedule:
  "calculateSegmentTiming exampleSchedule noOptions =
     [\<lparr>tagged = exampleSchedule ! 0, startTime = 0, duration = 7505999378950827 / 2 ^ 54,
       fadeIn = binary64 0.15, fadeOut = binary64 0.2\<rparr>,
      \<lparr>tagged = exampleSchedule ! 1, startTime = 262709978263279 / 2 ^ 51, duration = 3 / 4,
       fadeIn = binary64 0.15, fadeOut = binary64 0.2\<rparr>,
      \<lparr>tagged = exampleSchedule ! 2, startTime = 2552039788843281 / 2 ^ 52,
       duration = 7505999378950827 / 2 ^ 54,
       fadeIn = binary64 0.15, fadeOut = binary64 0.2\<rparr>]"
  unfolding calculateSegmentTiming_def exampleSchedule_def noOptions_def
  apply (simp add: number_or_def Let_def example_durations)
  apply (simp add: binary64_eval)
  done

text \<open>
  C4. The start times of the scheduled segments are not always non-decreasing: after a
  segment whose estimated duration is below the crossfade of 0.3 s the next segment
  starts earlier. The text \<open>Oui\<close> at the slow rate lasts 3/12 s, so the segment after it
  starts at the double \<open>0.25 - 0.3\<close>, which is \<open>-900719925474099 / 2\<^sup>5\<^sup>4\<close>, about -0.05 s:
  before the first one and before time 0.
\<close>

theorem short_segment_start_time_decreases:
  "map SegmentWithTiming.startTime
     (calculateSegmentTiming
        [\<lparr>segment = latin1 ''Oui'', speechRate = latin1 ''lent'', fadeIn = None, fadeOut = None\<rparr>,
         \<lparr>segment = latin1 ''Viens'', speechRate = latin1 ''lent'', fadeIn = None, fadeOut = None\<rparr>]
        noOptions)
   = [0, - (900719925474099 / 2 ^ 54)]
   \<and> - (900719925474099 / 2 ^ 54) < (0 :: real)"
  unfolding calculateSegmentTiming_def noOptions_def
  apply (simp add: number_or_def Let_def example_durations)
  apply (simp add: binary64_eval)
  done

text \<open>
  C5, as the code has it. With the crossfade left at its default of 0.3 s, every scheduled
  segment has the duration \<open>length / charsPerSecond + pauseCount * 0.3\<close> computed in
  doubles, where the four named rates give 10, 12, 15 and 18 characters per second and any
  other rate 13. The first segment starts at 0, and each start time is the rounded sum of
  the one before and the rounded difference of the duration before and 0.3. So the second
  start time exceeds the first by exactly that difference, and every start time exceeds
  the one before by the duration before less 0.3 up to the three roundings, each of a
  relative error of at most \<open>2\<^sup>-\<^sup>5\<^sup>3\<close>.
\<close>

theorem timing_formula:
  "defaultCrossfade options = None \<longrightarrow>
     length (calculateSegmentTiming segs options) = length segs
     \<and> (\<forall>i < length segs.
          SegmentWithTiming.duration (calculateSegmentTiming segs options ! i)
          = binary64 (binary64 (real (length (segment (segs ! i))) / charsPerSecond (speechRate (segs ! i)))
                      + binary64 (real (pauseCount (segment (segs ! i))) * binary64 0.3)))
     \<and> (segs \<noteq> [] \<longrightarrow> SegmentWithTiming.startTime (calculateSegmentTiming segs options ! 0) = 0)
     \<and> (\<forall>i. Suc i < length segs \<longrightarrow>
          SegmentWithTiming.startTime (calculateSegmentTiming segs options ! Suc i)
          = binary64 (SegmentWithTiming.startTime (calculateSegmentTiming segs options ! i)
              + binary64 (SegmentWithTiming.duration (calculateSegmentTiming segs options ! i)
                          - binary64 0.3)))
     \<and> (Suc 0 < length segs \<longrightarrow>
          SegmentWithTiming.startTime (calculateSegmentTiming segs options ! Suc 0)
            - SegmentWithTiming.startTime (calculateSegmentTiming segs options ! 0)
          = binary64 (SegmentWithTiming.duration (calculateSegmentTiming segs options ! 0)
                      - binary64 0.3))
     \<and> (\<forall>i. Suc i < length segs \<longrightarrow>
          \<bar>SegmentWithTiming.startTime (calculateSegmentTiming segs options ! Suc i)
             - SegmentWithTiming.startTime (calculateSegmentTiming segs options ! i)
             - (SegmentWithTiming.duration (calculateSegmentTiming segs options ! i) - 0.3)\<bar>
          \<le> (\<bar>SegmentWithTiming.startTime (calculateSegmentTiming segs options ! i)
                + binary64 (SegmentWithTiming.duration (calculateSegmentTiming segs options ! i)
                            - binary64 0.3)\<bar>
              + \<bar>SegmentWithTiming.duration (calculateSegmentTiming segs options ! i) - binary64 0.3\<bar>
              + 0.3) / 2 ^ 53)
     \<and> charsPerSecond (latin1 (''tr'' @ [CHR 0xE8] @ ''s lent'')) = 10
     \<and> charsPerSecond (latin1 ''lent'') = 12
     \<and> charsPerSecond (latin1 (''mod'' @ [CHR 0xE9] @ ''r'' @ [CHR 0xE9])) = 15
     \<and> charsPerSecond (latin1 ''rapide'') = 18
     \<and> (rate \<notin> {latin1 (''tr'' @ [CHR 0xE8] @ ''s lent''), latin1 ''lent'',
                  latin1 (''mod'' @ [CHR 0xE9] @ ''r'' @ [CHR 0xE9]), latin1 ''rapide''}
          \<longrightarrow> charsPerSecond rate = 13)
     \<and> pauseCount cs = length (filter (\<lambda>c. c \<in> {0x2E, 0x21, 0x3F, 0x2026}) cs)"
proof
  assume default: "defaultCrossfade options = None"
  define r where "r = calculateSegmentTiming segs options"
  define a where "a = number_or (defaultFadeIn options) (binary64 0.15)"
  define b where "b = number_or (defaultFadeOut options) (binary64 0.2)"
  have r: "r = timingFrom a b (binary64 0.3) 0 segs"
    using default by (simp add: r_def a_def b_def calculateSegmentTiming_def number_or_def)
  have len: "length r = length segs"
    by (simp add: r timingFrom_length)
  have dur: "\<forall>i < length segs.
      SegmentWithTiming.duration (r ! i)
      = binary64 (binary64 (real (length (segment (segs ! i))) / charsPerSecond (speechRate (segs ! i)))
                  + binary64 (real (pauseCount (segment (segs ! i))) * binary64 0.3))"
    by (simp add: r timingFrom_duration estimateDuration_def Let_def)
  have first: "segs \<noteq> [] \<longrightarrow> SegmentWithTiming.startTime (r ! 0) = 0"
    by (simp add: r timingFrom_first)
  have step: "\<forall>i. Suc i < length segs \<longrightarrow>
      SegmentWithTiming.startTime (r ! Suc i)
      = binary64 (SegmentWithTiming.startTime (r ! i)
          + binary64 (SegmentWithTiming.duration (r ! i) - binary64 0.3))"
    unfolding r by (intro allI impI, rule timingFrom_step)
  have one: "Suc 0 < length segs \<longrightarrow>
      SegmentWithTiming.startTime (r ! Suc 0) - SegmentWithTiming.startTime (r ! 0)
      = binary64 (SegmentWithTiming.duration (r ! 0) - binary64 0.3)"
  proof
    assume l: "Suc 0 < length segs"
    hence "segs \<noteq> []" by auto
    with first have z: "SegmentWithTiming.startTime (r ! 0) = 0" by simp
    from step l have "SegmentWithTiming.startTime (r ! Suc 0)
      = binary64 (SegmentWithTiming.startTime (r ! 0)
          + binary64 (SegmentWithTiming.duration (r ! 0) - binary64 0.3))" by blast
    thus "SegmentWithTiming.startTime (r ! Suc 0) - SegmentWithTiming.startTime (r ! 0)
      = binary64 (SegmentWithTiming.duration (r ! 0) - binary64 0.3)"
      by (simp add: z binary64_idem)
  qed
  have err: "\<forall>i. Suc i < length segs \<longrightarrow>
          \<bar>SegmentWithTiming.startTime (r ! Suc i) - SegmentWithTiming.startTime (r ! i)
             - (SegmentWithTiming.duration (r ! i) - 0.3)\<bar>
          \<le> (\<bar>SegmentWithTiming.startTime (r ! i)
                + binary64 (SegmentWithTiming.duration (r ! i) - binary64 0.3)\<bar>
              + \<bar>SegmentWithTiming.duration (r ! i) - binary64 0.3\<bar>
              + 0.3) / 2 ^ 53"
  proof (intro allI impI)
    fix i assume "Suc i < length segs"
    with step have "SegmentWithTiming.startTime (r ! Suc i)
      = binary64 (SegmentWithTiming.startTime (r ! i)
          + binary64 (SegmentWithTiming.duration (r ! i) - binary64 0.3))" by blast
    thus "\<bar>SegmentWithTiming.startTime (r ! Suc i) - SegmentWithTiming.startTime (r ! i)
             - (SegmentWithTiming.duration (r ! i) - 0.3)\<bar>
          \<le> (\<bar>SegmentWithTiming.startTime (r ! i)
                + binary64 (SegmentWithTiming.duration (r ! i) - binary64 0.3)\<bar>
              + \<bar>SegmentWithTiming.duration (r ! i) - binary64 0.3\<bar>
              + 0.3) / 2 ^ 53"
      by (rule rounded_step_error)
  qed
  have other: "rate \<notin> {latin1 (''tr'' @ [CHR 0xE8] @ ''s lent''), latin1 ''lent'',
                  latin1 (''mod'' @ [CHR 0xE9] @ ''r'' @ [CHR 0xE9]), latin1 ''rapide''}
          \<longrightarrow> charsPerSecond rate = 13"
    using charsPerSecond_default by blast
  have pc: "pauseCount cs = length (filter (\<lambda>c. c \<in> {0x2E, 0x21, 0x3F, 0x2026}) cs)"
    by (simp add: pauseCount_def)
  show "length (calculateSegmentTiming segs options) = length segs
     \<and> (\<forall>i < length segs.
          SegmentWithTiming.duration (calculateSegmentTiming segs options ! i)
          = binary64 (binary64 (real (length (segment (segs ! i))) / charsPerSecond (speechRate (segs ! i)))
                      + binary64 (real (pauseCount (segment (segs ! i))) * binary64 0.3)))
     \<and> (segs \<noteq> [] \<longrightarrow> SegmentWithTiming.startTime (calculateSegmentTiming segs options ! 0) = 0)
     \<and> (\<forall>i. Suc i < length segs \<longrightarrow>
          SegmentWithTiming.startTime (calculateSegmentTiming segs options ! Suc i)
          = binary64 (SegmentWithTiming.startTime (calculateSegmentTiming segs options ! i)
              + binary64 (SegmentWithTiming.duration (calculateSegmentTiming segs options ! i)
                          - binary64 0.3)))
     \<and> (Suc 0 < length segs \<longrightarrow>
          SegmentWithTiming.startTime (calculateSegmentTiming segs options ! Suc 0)
            - SegmentWithTiming.startTime (calculateSegmentTiming segs options ! 0)
          = binary64 (SegmentWithTiming.duration (calculateSegmentTiming segs options ! 0)
                      - binary64 0.3))
     \<and> (\<forall>i. Suc i < length segs \<longrightarrow>
          \<bar>SegmentWithTiming.startTime (calculateSegmentTiming segs options ! Suc i)
             - SegmentWithTiming.startTime (calculateSegmentTiming segs options ! i)
             - (SegmentWithTiming.duration (calculateSegmentTiming segs options ! i) - 0.3)\<bar>
          \<le> (\<bar>SegmentWithTiming.startTime (calculateSegmentTiming segs options ! i)
                + binary64 (SegmentWithTiming.duration (calculateSegmentTiming segs options ! i)
                            - binary64 0.3)\<bar>
              + \<bar>SegmentWithTiming.duration (calculateSegmentTiming segs options ! i) - binary64 0.3\<bar>
              + 0.3) / 2 ^ 53)
     \<and> charsPerSecond (latin1 (''tr'' @ [CHR 0xE8] @ ''s lent'')) = 10
     \<and> charsPerSecond (latin1 ''lent'') = 12
     \<and> charsPerSecond (latin1 (''mod'' @ [CHR 0xE9] @ ''r'' @ [CHR 0xE9])) = 15
     \<and> charsPerSecond (latin1 ''rapide'') = 18
     \<and> (rate \<notin> {latin1 (''tr'' @ [CHR 0xE8] @ ''s lent''), latin1 ''lent'',
                  latin1 (''mod'' @ [CHR 0xE9] @ ''r'' @ [CHR 0xE9]), latin1 ''rapide''}
          \<longrightarrow> charsPerSecond rate = 13)
     \<and> pauseCount cs = length (filter (\<lambda>c. c \<in> {0x2E, 0x21, 0x3F, 0x2026}) cs)"
    unfolding r_def [symmetric]
    apply (rule conjI, rule len)
    apply (rule conjI, rule dur)
    apply (rule conjI, rule first)
    apply (rule conjI, rule step)
    apply (rule conjI, rule one)
    apply (rule conjI, rule err)
    apply (rule conjI, rule charsPerSecond_table)
    apply (rule conjI, rule charsPerSecond_table)
    apply (rule conjI, rule charsPerSecond_table)
    apply (rule conjI, rule charsPerSecond_table)
    apply (rule conjI, rule other)
    apply (rule pc)
    done
qed

theorem timing_formula_witness:
  "defaultCrossfade noOptions = None
   \<and> 1 < length exampleSchedule
   \<and> Suc 1 < length exampleSchedule
   \<and> exampleSchedule \<noteq> []
   \<and> latin1 ''normal'' \<notin> {latin1 (''tr'' @ [CHR 0xE8] @ ''s lent''), latin1 ''lent'',
                  latin1 (''mod'' @ [CHR 0xE9] @ ''r'' @ [CHR 0xE9]), latin1 ''rapide''}
   \<and> length (calculateSegmentTiming exampleSchedule noOptions) = 3
   \<and> SegmentWithTiming.duration (calculateSegmentTiming exampleSchedule noOptions ! 1) = 9 / 12
   \<and> SegmentWithTiming.startTime (calculateSegmentTiming exampleSchedule noOptions ! 0) = 0
   \<and> SegmentWithTiming.startTime (calculateSegmentTiming exampleSchedule noOptions ! Suc 1)
     = binary64 (SegmentWithTiming.startTime (calculateSegmentTiming exampleSchedule noOptions ! 1)
         + binary64 (SegmentWithTiming.duration (calculateSegmentTiming exampleSchedule noOptions ! 1)
                     - binary64 0.3))
   \<and> SegmentWithTiming.startTime (calculateSegmentTiming exampleSchedule noOptions ! Suc 0)
       - SegmentWithTiming.startTime (calculateSegmentTiming exampleSchedule noOptions ! 0)
     = binary64 (SegmentWithTiming.duration (calculateSegmentTiming exampleSchedule noOptions ! 0)
                 - binary64 0.3)
   \<and> \<bar>SegmentWithTiming.startTime (calculateSegmentTiming exampleSchedule noOptions ! Suc 1)
        - SegmentWithTiming.startTime (calculateSegmentTiming exampleSchedule noOptions ! 1)
        - (SegmentWithTiming.duration (calculateSegmentTiming exampleSchedule noOptions ! 1) - 0.3)\<bar>
     \<le> (\<bar>SegmentWithTiming.startTime (calculateSegmentTiming exampleSchedule noOptions ! 1)
           + binary64 (SegmentWithTiming.duration (calculateSegmentTiming exampleSchedule noOptions ! 1)
                       - binary64 0.3)\<bar>
         + \<bar>SegmentWithTiming.duration (calculateSegmentTiming exampleSchedule noOptions ! 1)
            - binary64 0.3\<bar>
         + 0.3) / 2 ^ 53
   \<and> charsPerSecond (latin1 ''normal'') = 13"
proof -
  have default: "defaultCrossfade noOptions = None"
    by (simp add: noOptions_def)
  have len: "1 < length exampleSchedule" "Suc 1 < length exampleSchedule"
    "Suc 0 < length exampleSchedule" "exampleSchedule \<noteq> []"
    by (simp_all add: exampleSchedule_def)
  have other: "latin1 ''normal'' \<notin> {latin1 (''tr'' @ [CHR 0xE8] @ ''s lent''), latin1 ''lent'',
                  latin1 (''mod'' @ [CHR 0xE9] @ ''r'' @ [CHR 0xE9]), latin1 ''rapide''}"
    by (simp add: latin1_eq_iff)
  note formula = timing_formula [where options = noOptions and segs = exampleSchedule
      and rate = "latin1 ''normal''" and cs = "[]", THEN mp, OF default]
  note c1 = formula [THEN conjunct1]
  note c2 = formula [THEN conjunct2, THEN conjunct1, rule_format, OF len(1)]
  note c3 = formula [THEN conjunct2, THEN conjunct2, THEN conjunct1, THEN mp, OF len(4)]
  note c4 = formula [THEN conjunct2, THEN conjunct2, THEN conjunct2, THEN conjunct1,
      rule_format, OF len(2)]
  note c5 = formula [THEN conjunct2, THEN conjunct2, THEN conjunct2, THEN conjunct2,
      THEN conjunct1, THEN mp, OF len(3)]
  note c6 = formula [THEN conjunct2, THEN conjunct2, THEN conjunct2, THEN conjunct2,
      THEN conjunct2, THEN conjunct1, rule_format, OF len(2)]
  note c11 = formula [THEN conjunct2, THEN conjunct2, THEN conjunct2, THEN conjunct2,
      THEN conjunct2, THEN conjunct2, THEN conjunct2, THEN conjunct2, THEN conjunct2,
      THEN conjunct2, THEN conjunct1, THEN mp, OF other]
  have pauses: "pauseCount (latin1 ''Doucement'') = 0"
    by (simp add: pauseCount_def latin1_def)
  have "SegmentWithTiming.duration (calculateSegmentTiming exampleSchedule noOptions ! 1)
        = binary64 (binary64 (9 / 12) + binary64 (0 * binary64 0.3))"
    unfolding c2 by (simp add: exampleSchedule_def length_latin1 pauses charsPerSecond_table)
  also have "\<dots> = 9 / 12"
    by (simp add: binary64_eval)
  finally have d: "SegmentWithTiming.duration (calculateSegmentTiming exampleSchedule noOptions ! 1)
        = 9 / 12" .
  have l: "length (calculateSegmentTiming exampleSchedule noOptions) = 3"
    unfolding c1 by (simp add: exampleSchedule_def)
  show ?thesis
    apply (rule conjI, rule default)
    apply (rule conjI, rule len(1))
    apply (rule conjI, rule len(2))
    apply (rule conjI, rule len(4))
    apply (rule conjI, rule other)
    apply (rule conjI, rule l)
    apply (rule conjI, rule d)
    apply (rule conjI, rule c3)
    apply (rule conjI, rule c4)
    apply (rule conjI, rule c5)
    apply (rule conjI, rule c6)
    apply (rule c11)
    done
qed

text \<open>
  The claim as worded fails on the three example texts: the third start time exceeds the
  second by \<open>8106479329266892 / 2\<^sup>5\<^sup>4\<close> (printed 0.44999999999999996), and the duration
  of the second less 0.3 is \<open>8106479329266893 / 2\<^sup>5\<^sup>4\<close> as a double (printed 0.45) and
  0.45 as a real number.
\<close>

theorem timing_step_counterexample:
  "SegmentWithTiming.startTime (calculateSegmentTiming exampleSchedule noOptions ! 2)
     - SegmentWithTiming.startTime (calculateSegmentTiming exampleSchedule noOptions ! 1)
   = 8106479329266892 / 2 ^ 54
   \<and> SegmentWithTiming.duration (calculateSegmentTiming exampleSchedule noOptions ! 1) - binary64 0.3
   = 8106479329266893 / 2 ^ 54
   \<and> SegmentWithTiming.duration (calculateSegmentTiming exampleSchedule noOptions ! 1) - 0.3
   = 0.45
   \<and> binary64 (SegmentWithTiming.startTime (calculateSegmentTiming exampleSchedule noOptions ! 2)
               - SegmentWithTiming.startTime (calculateSegmentTiming exampleSchedule noOptions ! 1))
     \<noteq> binary64 (SegmentWithTiming.duration (calculateSegmentTiming exampleSchedule noOptions ! 1)
                   - binary64 0.3)"
proof -
  have c: "binary64 0.3 = 5404319552844595 / 2 ^ 54"
    by (simp add: binary64_eval)
  have d: "binary64 (8106479329266892 / 2 ^ 54) = 8106479329266892 / 2 ^ 54"
    "binary64 (8106479329266893 / 2 ^ 54) = 8106479329266893 / 2 ^ 54"
    by (simp_all add: binary64_eval)
  have s: "SegmentWithTiming.startTime (calculateSegmentTiming exampleSchedule noOptions ! 2)
     - SegmentWithTiming.startTime (calculateSegmentTiming exampleSchedule noOptions ! 1)
   = 8106479329266892 / 2 ^ 54"
    by (simp add: example_schedule)
  have t: "SegmentWithTiming.duration (calculateSegmentTiming exampleSchedule noOptions ! 1) - binary64 0.3
   = 8106479329266893 / 2 ^ 54"
    by (simp add: example_schedule c)
  have u: "SegmentWithTiming.duration (calculateSegmentTiming exampleSchedule noOptions ! 1) - 0.3
   = 0.45"
    by (simp add: example_schedule)
  have "binary64 (SegmentWithTiming.startTime (calculateSegmentTiming exampleSchedule noOptions ! 2)
               - SegmentWithTiming.startTime (calculateSegmentTiming exampleSchedule noOptions ! 1))
     \<noteq> binary64 (SegmentWithTiming.duration (calculateSegmentTiming exampleSchedule noOptions ! 1)
                   - binary64 0.3)"
    unfolding s t d by simp
  with s t u show ?thesis by simp
qed

subsection \<open>Gain of a sample\<close>

lemma upt_0_2: "[0..<2] = [0, 1]"
  by (simp add: upt_rec)

lemma typed_array_add_nth:
  "k < length xs \<Longrightarrow>
   typed_array_add xs i v ! k = (if int k = i then xs ! k + v else xs ! k)"
  by (auto simp add: typed_array_add_def)

lemma length_typed_array_add: "length (typed_array_add xs i v) = length xs"
  by (simp add: typed_array_add_def)

text \<open>
  The loop over the samples adds to frame \<open>k\<close> of the mix the sample that falls on it,
  times its gain, and leaves the other frames as they are.
\<close>

lemma mixSamples_nth:
  "k < length mix \<Longrightarrow> k < totalSamples \<Longrightarrow>
   mixSamples seg fade_in fade_out rate startSample totalSamples segmentSamples segmentData s mix ! k
   = (if int s \<le> int k - startSample \<and> int k - startSample < int segmentSamples
      then mix ! k + segmentData ! nat (int k - startSample)
             * sampleGain seg fade_in fade_out rate segmentSamples (nat (int k - startSample))
      else mix ! k)"
proof (induction seg fade_in fade_out rate startSample totalSamples segmentSamples segmentData s mix
    rule: mixSamples.induct)
  case (1 seg fade_in fade_out rate startSample totalSamples segmentSamples segmentData s mix)
  show ?case
  proof (cases "s < segmentSamples")
    case False
    then show ?thesis
      by (subst mixSamples.simps) simp
  next
    case inside: True
    show ?thesis
    proof (cases "startSample + int s \<ge> int totalSamples")
      case True
      with "1.prems" have "\<not> int s \<le> int k - startSample"
        by linarith
      with inside True show ?thesis
        by (subst mixSamples.simps) (simp add: Let_def)
    next
      case False
      let ?v = "segmentData ! s * sampleGain seg fade_in fade_out rate segmentSamples s"
      let ?mix = "typed_array_add mix (startSample + int s) ?v"
      have unfold: "mixSamples seg fade_in fade_out rate startSample totalSamples segmentSamples segmentData s mix
          = mixSamples seg fade_in fade_out rate startSample totalSamples segmentSamples segmentData (Suc s) ?mix"
        using inside False by (subst mixSamples.simps) (simp add: Let_def)
      have k: "k < length ?mix"
        using "1.prems"(1) by (simp add: length_typed_array_add)
      note rest = "1.IH" [OF inside refl False k "1.prems"(2)]
      show ?thesis
      proof (cases "int k = startSample + int s")
        case True
        then have here: "nat (int k - startSample) = s" and "int k - startSample = int s"
          by simp_all
        with inside True "1.prems"(1) show ?thesis
          unfolding unfold rest by (simp add: typed_array_add_nth)
      next
        case False
        then have "int (Suc s) \<le> int k - startSample \<longleftrightarrow> int s \<le> int k - startSample"
          by auto
        with False "1.prems"(1) show ?thesis
          unfolding unfold rest by (simp add: typed_array_add_nth)
      qed
    qed
  qed
qed

text \<open>One turn of the loop over the segments mixes each of the two channels in this way.\<close>

lemma mixSegment_channel:
  assumes "mixSegment rate totalSamples seg hasNext buffer mixBuffer = Inr mixed"
    and "length (channelData mixBuffer) = 2"
    and "channel < 2"
  shows "channelData mixed ! channel
     = mixSamples seg (number_or (fadeIn seg) 0.1)
         (number_or (fadeOut seg)
            (if hasNext then min 0.5 (AudioSegment.duration seg * 0.2) else 0))
         rate \<lfloor>startTime seg * rate\<rfloor> totalSamples (length_frames buffer)
         (channelData buffer ! min channel (numberOfChannels buffer - 1)) 0
         (channelData mixBuffer ! channel)"
proof -
  from assms(2) obtain left right where channels: "channelData mixBuffer = [left, right]"
    by (cases "channelData mixBuffer"; cases "tl (channelData mixBuffer)") auto
  from assms(3) have "channel = 0 \<or> channel = 1"
    by auto
  with assms(1) show ?thesis
    by (auto simp add: mixSegment_def Let_def upt_0_2 channels split: if_splits)
qed

text \<open>
  C9, as the code has it. On the general path the sample \<open>s\<close> of a segment is added to the
  frame of the mix it falls on after a multiplication by the gain of the segment at \<open>s\<close>.
  For a segment whose declared volume, fade-in and fade-out are absent or not zero, this
  gain is the volume (1.0 when absent), times \<open>s / (fadeIn * rate)\<close> when
  \<open>s < fadeIn * rate\<close>, times \<open>(bufferLength - s) / (fadeOut * rate)\<close> when
  \<open>s > bufferLength - fadeOut * rate\<close>, where an absent fade-in is 0.1 s and an absent
  fade-out is the smaller of 0.5 s and a fifth of the planned duration when another segment
  follows, and 0 for the last segment. With a fade-in of 0.1 s at 44100 Hz the gain of
  sample 0 is 0, and the gain of sample \<open>floor (0.1 * 44100) = 4410\<close> is the volume when that
  sample lies before the fade-out ramp, that is 1.0 for a segment without a volume.
\<close>

theorem sample_gain_ramps:
  "(mixSegment rate totalSamples seg hasNext buffer mixBuffer = Inr mixed
      \<and> length (channelData mixBuffer) = 2 \<and> channel < 2
      \<and> s < length_frames buffer
      \<and> 0 \<le> \<lfloor>startTime seg * rate\<rfloor> + int s
      \<and> nat (\<lfloor>startTime seg * rate\<rfloor> + int s) < totalSamples
      \<and> nat (\<lfloor>startTime seg * rate\<rfloor> + int s) < length (channelData mixBuffer ! channel)
      \<longrightarrow> channelData mixed ! channel ! nat (\<lfloor>startTime seg * rate\<rfloor> + int s)
          = channelData mixBuffer ! channel ! nat (\<lfloor>startTime seg * rate\<rfloor> + int s)
            + channelData buffer ! min channel (numberOfChannels buffer - 1) ! s
              * segmentGain rate seg hasNext (length_frames buffer) s)
   \<and> (volume seg \<noteq> Some 0 \<and> fadeIn seg \<noteq> Some 0 \<and> fadeOut seg \<noteq> Some 0
      \<longrightarrow> segmentGain rate seg hasNext segmentSamples s
          = (case volume seg of None \<Rightarrow> 1 | Some v \<Rightarrow> v)
            * (if real s < (case fadeIn seg of None \<Rightarrow> 0.1 | Some f \<Rightarrow> f) * rate
               then real s / ((case fadeIn seg of None \<Rightarrow> 0.1 | Some f \<Rightarrow> f) * rate) else 1)
            * (if real s > real segmentSamples
                   - (case fadeOut seg of
                        None \<Rightarrow> if hasNext then min 0.5 (AudioSegment.duration seg * 0.2) else 0
                      | Some f \<Rightarrow> f) * rate
               then (real segmentSamples - real s)
                    / ((case fadeOut seg of
                          None \<Rightarrow> if hasNext then min 0.5 (AudioSegment.duration seg * 0.2) else 0
                        | Some f \<Rightarrow> f) * rate)
               else 1))
   \<and> (volume seg \<noteq> Some 0 \<and> (fadeIn seg = None \<or> fadeIn seg = Some 0.1)
      \<longrightarrow> segmentGain 44100 seg hasNext segmentSamples 0 = 0)
   \<and> \<lfloor>0.1 * 44100 :: real\<rfloor> = 4410
   \<and> (volume seg \<noteq> Some 0 \<and> (fadeIn seg = None \<or> fadeIn seg = Some 0.1)
      \<and> fadeOut seg \<noteq> Some 0
      \<and> real 4410 \<le> real segmentSamples
            - (case fadeOut seg of
                 None \<Rightarrow> if hasNext then min 0.5 (AudioSegment.duration seg * 0.2) else 0
               | Some f \<Rightarrow> f) * 44100
      \<longrightarrow> segmentGain 44100 seg hasNext segmentSamples 4410
          = (case volume seg of None \<Rightarrow> 1 | Some v \<Rightarrow> v))"
proof -
  have mixed: "mixSegment rate totalSamples seg hasNext buffer mixBuffer = Inr mixed
      \<and> length (channelData mixBuffer) = 2 \<and> channel < 2
      \<and> s < length_frames buffer
      \<and> 0 \<le> \<lfloor>startTime seg * rate\<rfloor> + int s
      \<and> nat (\<lfloor>startTime seg * rate\<rfloor> + int s) < totalSamples
      \<and> nat (\<lfloor>startTime seg * rate\<rfloor> + int s) < length (channelData mixBuffer ! channel)
      \<longrightarrow> channelData mixed ! channel ! nat (\<lfloor>startTime seg * rate\<rfloor> + int s)
          = channelData mixBuffer ! channel ! nat (\<lfloor>startTime seg * rate\<rfloor> + int s)
            + channelData buffer ! min channel (numberOfChannels buffer - 1) ! s
              * segmentGain rate seg hasNext (length_frames buffer) s"
  proof (intro impI, elim conjE)
    let ?k = "nat (\<lfloor>startTime seg * rate\<rfloor> + int s)"
    assume result: "mixSegment rate totalSamples seg hasNext buffer mixBuffer = Inr mixed"
      and two: "length (channelData mixBuffer) = 2" and channel: "channel < 2"
      and s: "s < length_frames buffer"
      and target: "0 \<le> \<lfloor>startTime seg * rate\<rfloor> + int s"
      and total: "?k < totalSamples"
      and len: "?k < length (channelData mixBuffer ! channel)"
    from target have offset: "int ?k - \<lfloor>startTime seg * rate\<rfloor> = int s"
      by simp
    show "channelData mixed ! channel ! ?k
          = channelData mixBuffer ! channel ! ?k
            + channelData buffer ! min channel (numberOfChannels buffer - 1) ! s
              * segmentGain rate seg hasNext (length_frames buffer) s"
      unfolding mixSegment_channel [OF result two channel] mixSamples_nth [OF len total] offset
      using s by (simp add: segmentGain_def Let_def)
  qed
  have formula: "volume seg \<noteq> Some 0 \<and> fadeIn seg \<noteq> Some 0 \<and> fadeOut seg \<noteq> Some 0
      \<longrightarrow> segmentGain rate seg hasNext segmentSamples s
          = (case volume seg of None \<Rightarrow> 1 | Some v \<Rightarrow> v)
            * (if real s < (case fadeIn seg of None \<Rightarrow> 0.1 | Some f \<Rightarrow> f) * rate
               then real s / ((case fadeIn seg of None \<Rightarrow> 0.1 | Some f \<Rightarrow> f) * rate) else 1)
            * (if real s > real segmentSamples
                   - (case fadeOut seg of
                        None \<Rightarrow> if hasNext then min 0.5 (AudioSegment.duration seg * 0.2) else 0
                      | Some f \<Rightarrow> f) * rate
               then (real segmentSamples - real s)
                    / ((case fadeOut seg of
                          None \<Rightarrow> if hasNext then min 0.5 (AudioSegment.duration seg * 0.2) else 0
                        | Some f \<Rightarrow> f) * rate)
               else 1)"
    by (auto simp add: segmentGain_def sampleGain_def Let_def number_or_def split: option.splits)
  have start: "volume seg \<noteq> Some 0 \<and> (fadeIn seg = None \<or> fadeIn seg = Some 0.1)
      \<longrightarrow> segmentGain 44100 seg hasNext segmentSamples 0 = 0"
    by (auto simp add: segmentGain_def sampleGain_def Let_def number_or_def split: option.splits)
  have index: "\<lfloor>0.1 * 44100 :: real\<rfloor> = 4410"
    by simp
  have after: "volume seg \<noteq> Some 0 \<and> (fadeIn seg = None \<or> fadeIn seg = Some 0.1)
      \<and> fadeOut seg \<noteq> Some 0
      \<and> real 4410 \<le> real segmentSamples
            - (case fadeOut seg of
                 None \<Rightarrow> if hasNext then min 0.5 (AudioSegment.duration seg * 0.2) else 0
               | Some f \<Rightarrow> f) * 44100
      \<longrightarrow> segmentGain 44100 seg hasNext segmentSamples 4410
          = (case volume seg of None \<Rightarrow> 1 | Some v \<Rightarrow> v)"
    by (auto simp add: segmentGain_def sampleGain_def Let_def number_or_def split: option.splits)
  from mixed formula start index after show ?thesis
    by (intro conjI)
qed

text \<open>
  The plain example segment is mixed last, at 8000 Hz, from the two frames of the first
  example buffer into a silent mix: its second sample arrives with the gain 1/800. At
  44100 Hz and with 44100 frames its gain is 0 at sample 0 and 1 at sample 4410.
\<close>

theorem sample_gain_ramps_witness:
  "mixSegment 8000 10 examplePlainSegment False exampleBufferA (exampleMix 0)
     = Inr (exampleMix (1 / 1600))
   \<and> length (channelData (exampleMix 0)) = 2 \<and> (0 :: nat) < 2
   \<and> 1 < length_frames exampleBufferA
   \<and> 0 \<le> \<lfloor>startTime examplePlainSegment * 8000\<rfloor> + int 1
   \<and> nat (\<lfloor>startTime examplePlainSegment * 8000\<rfloor> + int 1) < 10
   \<and> nat (\<lfloor>startTime examplePlainSegment * 8000\<rfloor> + int 1)
       < length (channelData (exampleMix 0) ! 0)
   \<and> volume examplePlainSegment \<noteq> Some 0
   \<and> fadeIn examplePlainSegment \<noteq> Some 0
   \<and> fadeOut examplePlainSegment \<noteq> Some 0
   \<and> (fadeIn examplePlainSegment = None \<or> fadeIn examplePlainSegment = Some 0.1)
   \<and> real 4410 \<le> real 44100
         - (case fadeOut examplePlainSegment of
              None \<Rightarrow> if False then min 0.5 (AudioSegment.duration examplePlainSegment * 0.2) else 0
            | Some f \<Rightarrow> f) * 44100
   \<and> channelData (exampleMix (1 / 1600)) ! 0 ! 1
       = channelData (exampleMix 0) ! 0 ! 1
         + channelData exampleBufferA ! 0 ! 1 * segmentGain 8000 examplePlainSegment False 2 1
   \<and> segmentGain 8000 examplePlainSegment False 44100 1 = 1 / 800
   \<and> segmentGain 44100 examplePlainSegment False 44100 0 = 0
   \<and> segmentGain 44100 examplePlainSegment False 44100 4410 = 1"
proof -
  have result: "mixSegment 8000 10 examplePlainSegment False exampleBufferA (exampleMix 0)
      = Inr (exampleMix (1 / 1600))"
    by (simp add: mixSegment_def examplePlainSegment_def exampleBufferA_def exampleMix_def
        numberOfChannels_def Let_def number_or_def upt_0_2 mixSamples.simps sampleGain_def
        typed_array_add_def)
  have two: "length (channelData (exampleMix 0)) = 2" and channel: "(0 :: nat) < 2"
    and sample: "1 < length_frames exampleBufferA"
    by (simp_all add: exampleMix_def exampleBufferA_def)
  have target: "0 \<le> \<lfloor>startTime examplePlainSegment * 8000\<rfloor> + int 1"
    and total: "nat (\<lfloor>startTime examplePlainSegment * 8000\<rfloor> + int 1) < 10"
    and len: "nat (\<lfloor>startTime examplePlainSegment * 8000\<rfloor> + int 1)
       < length (channelData (exampleMix 0) ! 0)"
    by (simp_all add: examplePlainSegment_def exampleMix_def)
  have declared: "volume examplePlainSegment \<noteq> Some 0" "fadeIn examplePlainSegment \<noteq> Some 0"
    "fadeOut examplePlainSegment \<noteq> Some 0"
    and fade_in: "fadeIn examplePlainSegment = None \<or> fadeIn examplePlainSegment = Some 0.1"
    by (simp_all add: examplePlainSegment_def)
  have before: "real 4410 \<le> real 44100
         - (case fadeOut examplePlainSegment of
              None \<Rightarrow> if False then min 0.5 (AudioSegment.duration examplePlainSegment * 0.2) else 0
            | Some f \<Rightarrow> f) * 44100"
    by (simp add: examplePlainSegment_def)
  note ramps = sample_gain_ramps [where rate = 8000 and totalSamples = 10
      and seg = examplePlainSegment and hasNext = False and buffer = exampleBufferA
      and mixBuffer = "exampleMix 0" and mixed = "exampleMix (1 / 1600)" and channel = 0
      and s = 1 and segmentSamples = 44100]
  note c1 = ramps [THEN conjunct1, THEN mp,
      OF conjI [OF result conjI [OF two conjI [OF channel conjI [OF sample
        conjI [OF target conjI [OF total len]]]]]]]
  note c2 = ramps [THEN conjunct2, THEN conjunct1, THEN mp,
      OF conjI [OF declared(1) conjI [OF declared(2) declared(3)]]]
  note c3 = ramps [THEN conjunct2, THEN conjunct2, THEN conjunct1, THEN mp,
      OF conjI [OF declared(1) fade_in]]
  note c5 = ramps [THEN conjunct2, THEN conjunct2, THEN conjunct2, THEN conjunct2, THEN mp,
      OF conjI [OF declared(1) conjI [OF fade_in conjI [OF declared(3) before]]]]
  from c1 have mixed: "channelData (exampleMix (1 / 1600)) ! 0 ! 1
       = channelData (exampleMix 0) ! 0 ! 1
         + channelData exampleBufferA ! 0 ! 1 * segmentGain 8000 examplePlainSegment False 2 1"
    by (simp add: examplePlainSegment_def exampleBufferA_def numberOfChannels_def)
  from c2 have gain: "segmentGain 8000 examplePlainSegment False 44100 1 = 1 / 800"
    by (simp add: examplePlainSegment_def)
  from c5 have full: "segmentGain 44100 examplePlainSegment False 44100 4410 = 1"
    by (simp add: examplePlainSegment_def)
  from result two channel sample target total len declared fade_in before mixed gain c3 full
  show ?thesis
    by (intro conjI)
qed

text \<open>
  The claim as worded fails on a segment of one second with the volume 0.5 and a fade-in
  of 0.1 s that is mixed last at 44100 Hz: the gain of sample 4410 is 0.5.
\<close>

theorem sample_gain_counterexample:
  "segmentGain 44100
     \<lparr>startTime = 0, duration = 1, audioUrl = latin1 ''a'', environment = None,
      volume = Some 0.5, fadeIn = Some 0.1, fadeOut = None\<rparr> False 44100 4410
   = 0.5"
  by (simp add: segmentGain_def sampleGain_def Let_def number_or_def)

subsection \<open>Container encoder\<close>

lemma fold_and_then:
  assumes step: "\<And>i v. i \<in> set xs \<Longrightarrow> I v \<Longrightarrow> f i v = Inr (g i v) \<and> I (g i v)"
    and init: "I v0"
  shows "fold (\<lambda>i acc. and_then acc (f i)) xs (Inr v0) = Inr (fold g xs v0) \<and> I (fold g xs v0)"
  using assms
proof (induction xs arbitrary: v0)
  case Nil
  then show ?case by simp
next
  case (Cons x xs)
  from Cons.prems have first: "f x v0 = Inr (g x v0)" and inv: "I (g x v0)"
    by simp_all
  have "fold (\<lambda>i acc. and_then acc (f i)) xs (Inr (g x v0))
          = Inr (fold g xs (g x v0)) \<and> I (fold g xs (g x v0))"
    using Cons.prems(1) inv by (intro Cons.IH) simp_all
  then show ?case
    using first by (simp add: and_then_def)
qed

lemma length_put16: "length (put16 view off v) = length view"
  by (simp add: put16_def)

lemma setInt16_put16:
  "off + 2 \<le> length view \<Longrightarrow> setInt16 view off v = Inr (put16 view off v)"
  by (simp add: setInt16_def setUint16_def put16_def)

lemma fold_put16_length: "length (fold (\<lambda>x view. put16 view (off x) (val x)) xs view) = length view"
  by (induction xs arbitrary: view) (simp_all add: length_put16)

lemma fold_put16_other:
  assumes "\<And>x. x \<in> set xs \<Longrightarrow> k \<noteq> off x \<and> k \<noteq> off x + 1"
  shows "fold (\<lambda>x view. put16 view (off x) (val x)) xs view ! k = view ! k"
  using assms
proof (induction xs arbitrary: view)
  case Nil
  then show ?case by simp
next
  case (Cons x xs)
  have "fold (\<lambda>x view. put16 view (off x) (val x)) xs (put16 view (off x) (val x)) ! k
          = put16 view (off x) (val x) ! k"
    using Cons.prems by (intro Cons.IH) simp
  also have "\<dots> = view ! k"
    using Cons.prems [of x] by (simp add: put16_def)
  finally show ?case by simp
qed

lemma fold_put16_written:
  assumes "x0 \<in> set xs"
    and "distinct xs"
    and "\<And>x y. x \<in> set xs \<Longrightarrow> y \<in> set xs \<Longrightarrow> x \<noteq> y \<Longrightarrow>
           off x \<noteq> off y \<and> off x \<noteq> off y + 1"
    and "\<And>x. x \<in> set xs \<Longrightarrow> off x + 2 \<le> length view"
  shows "fold (\<lambda>x view. put16 view (off x) (val x)) xs view ! off x0 = ucast (val x0)
       \<and> fold (\<lambda>x view. put16 view (off x) (val x)) xs view ! (off x0 + 1) = ucast (drop_bit 8 (val x0))"
  using assms
proof (induction xs arbitrary: view)
  case Nil
  then show ?case by simp
next
  case (Cons x xs)
  let ?view = "put16 view (off x) (val x)"
  show ?case
  proof (cases "x0 = x")
    case True
    from Cons.prems(2) have notin: "x \<notin> set xs" by simp
    have apart: "\<And>y. y \<in> set xs \<Longrightarrow> off x \<noteq> off y \<and> off x \<noteq> off y + 1 \<and> off x + 1 \<noteq> off y \<and> off x + 1 \<noteq> off y + 1"
    proof -
      fix y assume y: "y \<in> set xs"
      with notin have "x \<noteq> y" by auto
      with Cons.prems(3) [of x y] Cons.prems(3) [of y x] y show "off x \<noteq> off y \<and> off x \<noteq> off y + 1 \<and> off x + 1 \<noteq> off y \<and> off x + 1 \<noteq> off y + 1"
        by auto
    qed
    have "fold (\<lambda>x view. put16 view (off x) (val x)) xs ?view ! off x = ?view ! off x"
      using apart by (intro fold_put16_other) simp
    moreover have "fold (\<lambda>x view. put16 view (off x) (val x)) xs ?view ! (off x + 1) = ?view ! (off x + 1)"
      using apart by (intro fold_put16_other) simp
    moreover have "?view ! off x = ucast (val x)" "?view ! (off x + 1) = ucast (drop_bit 8 (val x))"
      using Cons.prems(4) [of x] by (simp_all add: put16_def)
    ultimately show ?thesis using True by simp
  next
    case False
    with Cons.prems(1) have "x0 \<in> set xs" by simp
    moreover from Cons.prems(2) have "distinct xs" by simp
    ultimately have "fold (\<lambda>x view. put16 view (off x) (val x)) xs ?view ! off x0 = ucast (val x0)
       \<and> fold (\<lambda>x view. put16 view (off x) (val x)) xs ?view ! (off x0 + 1) = ucast (drop_bit 8 (val x0))"
      using Cons.prems(3,4) by (intro Cons.IH) (simp_all add: length_put16)
    then show ?thesis by simp
  qed
qed

lemma fold_concat: "fold f (concat xss) v = fold (fold f) xss v"
  by (induction xss arbitrary: v) simp_all

lemma slot_less:
  fixes i L c C :: nat
  assumes "i < L" "c < C"
  shows "i * C + c < L * C"
proof -
  have "i * C + c < i * C + C" using assms(2) by simp
  also have "\<dots> = Suc i * C" by simp
  also have "\<dots> \<le> L * C" using assms(1) by (intro mult_le_mono1) simp
  finally show ?thesis .
qed

lemma slot_inj:
  fixes i i' c c' C :: nat
  assumes "c < C" "c' < C" "i * C + c = i' * C + c'"
  shows "i = i' \<and> c = c'"
proof -
  have "(i * C + c) div C = i" "(i' * C + c') div C = i'"
    using assms(1,2) by simp_all
  with assms(3) have "i = i'" by simp
  with assms(3) show ?thesis by simp
qed

lemma writeChannel_pure:
  assumes "channel < numberOfChannels b"
    and "length view = 44 + length_frames b * numberOfChannels b * 2"
  shows "writeChannel b channel view =
           Inr (fold (\<lambda>i view. put16 view (sampleOffset (numberOfChannels b) (channel, i))
                                 (pcm16 (channelData b ! channel ! i)))
                  [0..<length_frames b] view)
         \<and> length (fold (\<lambda>i view. put16 view (sampleOffset (numberOfChannels b) (channel, i))
                                 (pcm16 (channelData b ! channel ! i)))
                  [0..<length_frames b] view) = 44 + length_frames b * numberOfChannels b * 2"
proof -
  let ?n = "44 + length_frames b * numberOfChannels b * 2"
  let ?f = "\<lambda>i view. setInt16 view (44 + (i * numberOfChannels b + channel) * 2)
              (toInt16 (max (- 1) (min 1 (channelData b ! channel ! i)) * 0x7FFF))"
  let ?g = "\<lambda>i view. put16 view (sampleOffset (numberOfChannels b) (channel, i))
                                 (pcm16 (channelData b ! channel ! i))"
  have step: "?f i v = Inr (?g i v) \<and> length (?g i v) = ?n"
    if "i \<in> set [0..<length_frames b]" and "length v = ?n" for i v
  proof -
    from that(1) have "i < length_frames b" by simp
    then have "i * numberOfChannels b + channel < length_frames b * numberOfChannels b"
      using assms(1) by (rule slot_less)
    then have "44 + (i * numberOfChannels b + channel) * 2 + 2 \<le> length v"
      using that(2) by simp
    then show ?thesis
      using that(2) by (simp add: setInt16_put16 sampleOffset_def pcm16_def length_put16)
  qed
  have "fold (\<lambda>i acc. and_then acc (?f i)) [0..<length_frames b] (Inr view)
          = Inr (fold ?g [0..<length_frames b] view)
        \<and> length (fold ?g [0..<length_frames b] view) = ?n"
    using step assms(2) by (rule fold_and_then [where I = "\<lambda>v. length v = ?n"])
  then show ?thesis
    by (simp add: writeChannel_def Let_def)
qed

lemma writeChannels_pure:
  assumes "length view = 44 + length_frames b * numberOfChannels b * 2"
  shows "fold (\<lambda>channel acc. and_then acc (writeChannel b channel)) [0..<numberOfChannels b] (Inr view)
         = Inr (putSamples b view)"
proof -
  let ?n = "44 + length_frames b * numberOfChannels b * 2"
  let ?g = "\<lambda>channel view. fold (\<lambda>i view. put16 view (sampleOffset (numberOfChannels b) (channel, i))
                                 (pcm16 (channelData b ! channel ! i)))
                  [0..<length_frames b] view"
  have step: "writeChannel b c v = Inr (?g c v) \<and> length (?g c v) = ?n"
    if "c \<in> set [0..<numberOfChannels b]" and "length v = ?n" for c v
    using that by (intro writeChannel_pure) simp_all
  have "fold (\<lambda>channel acc. and_then acc (writeChannel b channel)) [0..<numberOfChannels b] (Inr view)
          = Inr (fold ?g [0..<numberOfChannels b] view)
        \<and> length (fold ?g [0..<numberOfChannels b] view) = ?n"
    using step assms by (rule fold_and_then [where I = "\<lambda>v. length v = ?n"])
  moreover have "fold ?g [0..<numberOfChannels b] view = putSamples b view"
    by (simp add: putSamples_def samplePairs_def product_concat_map fold_concat fold_map comp_def)
  ultimately show ?thesis by simp
qed

lemma writeString4:
  "offset + 4 \<le> length view \<Longrightarrow>
   writeString view offset [a, b, c, d] =
     Inr (view[offset := ucast a, offset + 1 := ucast b, offset + 2 := ucast c, offset + 3 := ucast d])"
  by (simp add: writeString_def and_then_def setUint8_def numeral_3_eq_3)

lemma latin1_4: "latin1 [a, b, c, d] = [word_of_nat (of_char a), word_of_nat (of_char b), word_of_nat (of_char c), word_of_nat (of_char d)]"
  by (simp add: latin1_def)

lemma js_trunc_of_nat: "js_trunc (real n) = int n"
  by (simp add: js_trunc_def)

lemma list_update_Cons_numeral: "(x # xs)[numeral v := y] = x # xs[numeral v - 1 := y]"
  by (simp add: numeral_eq_Suc)

lemma zeros44: "replicate (44 + n) (0 :: byte) =
   [0,0,0,0, 0,0,0,0, 0,0,0,0, 0,0,0,0, 0,0,0,0, 0,0,0,0, 0,0,0,0, 0,0,0,0, 0,0,0,0, 0,0,0,0, 0,0,0,0] @ replicate n 0"
  by (simp add: replicate_add numeral_eq_Suc)

lemma and_then_Inr: "and_then (Inr x) f = f x"
  by (simp add: and_then_def)

lemma toUint32_of_nat: "toUint32 (real n) = word_of_nat n"
  by (simp add: toUint32_def js_trunc_of_nat)

lemma toUint16_of_nat: "toUint16 (real n) = word_of_nat n"
  by (simp add: toUint16_def js_trunc_of_nat)

lemma toUint_numerals: "toUint32 16 = 16" "toUint16 16 = 16" "toUint16 1 = 1"
  by (simp_all add: toUint32_def toUint16_def js_trunc_def)

lemma header_view:
  "(replicate (44 + n) (0 :: byte))
     [0 := a0, Suc 0 := a1, Suc (Suc 0) := a2, 3 := a3, 4 := b0, 5 := b1, 6 := b2, 7 := b3, 8 := c0, 9 := c1, 10 := c2, 11 := c3, 12 := d0, 13 := d1, 14 := d2, 15 := d3, 16 := e0, 17 := e1, 18 := e2, 19 := e3, 20 := f0, 21 := f1, 22 := g0, 23 := g1, 24 := h0, 25 := h1, 26 := h2, 27 := h3, 28 := i0, 29 := i1, 30 := i2, 31 := i3, 32 := j0, 33 := j1, 34 := k0, 35 := k1, 36 := l0, 37 := l1, 38 := l2, 39 := l3, 40 := m0, 41 := m1, 42 := m2, 43 := m3]
   = [a0, a1, a2, a3, b0, b1, b2, b3, c0, c1, c2, c3, d0, d1, d2, d3, e0, e1, e2, e3, f0, f1, g0, g1, h0, h1, h2, h3, i0, i1, i2, i3, j0, j1, k0, k1, l0, l1, l2, l3, m0, m1, m2, m3] @ replicate n 0"
  by (simp add: zeros44 list_update_append list_update_Cons_numeral)

lemma exportToBuffer_eq:
  "exportToBuffer b = Inr (putSamples b (wavHeader b @ replicate (length_frames b * numberOfChannels b * 2) 0))"
  apply (simp add: exportToBuffer_def Let_def writeString4 latin1_4 and_then_Inr setUint32_def setUint16_def
      toUint32_of_nat toUint16_of_nat toUint_numerals writeChannels_pure
      del: of_nat_add of_nat_mult of_nat_numeral)
  apply (simp add: header_view wavHeader_def le32_def le16_def Let_def
      del: of_nat_add of_nat_mult)
  done

lemma le16_roundtrip:
  "(ucast (ucast (w :: 16 word) :: byte) OR push_bit 8 (ucast (ucast (drop_bit 8 w) :: byte)) :: 16 word) = w"
  by (rule bit_word_eqI) (auto simp add: bit_simps)

lemma le32_roundtrip:
  "(ucast (ucast (w :: 32 word) :: byte) OR push_bit 8 (ucast (ucast (drop_bit 8 w) :: byte))
      OR push_bit 16 (ucast (ucast (drop_bit 16 w) :: byte))
      OR push_bit 24 (ucast (ucast (drop_bit 24 w) :: byte)) :: 32 word) = w"
proof (rule bit_word_eqI)
  fix n
  assume "n < LENGTH(32)"
  then have n: "n < 32" by simp
  consider "n < 8" | "8 \<le> n" "n < 16" | "16 \<le> n" "n < 24" | "24 \<le> n"
    by linarith
  then show "bit (ucast (ucast w :: byte) OR push_bit 8 (ucast (ucast (drop_bit 8 w) :: byte))
      OR push_bit 16 (ucast (ucast (drop_bit 16 w) :: byte))
      OR push_bit 24 (ucast (ucast (drop_bit 24 w) :: byte)) :: 32 word) n = bit w n"
    using n by cases (auto simp add: bit_simps)
qed

lemma js_trunc_scaled_range:
  assumes "- 1 \<le> y" "y \<le> 1"
  shows "- 32767 \<le> js_trunc (y * 32767) \<and> js_trunc (y * 32767) \<le> 32767"
proof (cases "0 \<le> y * 32767")
  case True
  then have "js_trunc (y * 32767) = \<lfloor>y * 32767\<rfloor>"
    by (simp add: js_trunc_def)
  moreover have "\<lfloor>y * 32767\<rfloor> \<le> 32767"
    using assms(2) by (simp add: floor_le_iff)
  moreover have "0 \<le> \<lfloor>y * 32767\<rfloor>"
    using True by simp
  ultimately show ?thesis by simp
next
  case False
  then have "js_trunc (y * 32767) = \<lceil>y * 32767\<rceil>"
    by (simp add: js_trunc_def)
  moreover have "- 32767 \<le> \<lceil>y * 32767\<rceil>"
    using assms(1) by (simp add: le_ceiling_iff)
  moreover have "\<lceil>y * 32767\<rceil> \<le> 0"
    using False by (simp add: ceiling_le_iff)
  ultimately show ?thesis by simp
qed

lemma sint_pcm16: "sint (pcm16 x) = js_trunc (max (- 1) (min 1 x) * 32767)"
proof -
  let ?v = "js_trunc (max (- 1) (min 1 x) * 32767)"
  have "- 32767 \<le> ?v \<and> ?v \<le> 32767"
    by (rule js_trunc_scaled_range) simp_all
  then have "signed_take_bit 15 ?v = ?v"
    by (intro signed_take_bit_int_eq_self) simp_all
  then show ?thesis
    by (simp add: pcm16_def toInt16_def sint_sbintrunc')
qed

lemma length_wavHeader: "length (wavHeader b) = 44"
  by (simp add: wavHeader_def le32_def le16_def Let_def)

lemma sampleOffset_ge: "44 \<le> sampleOffset C x"
  by (simp add: sampleOffset_def)

lemma putSamples_length:
  "length (putSamples b view) = length view"
  by (simp add: putSamples_def fold_put16_length)

lemma putSamples_header:
  assumes "k < 44"
  shows "putSamples b view ! k = view ! k"
  unfolding putSamples_def
proof (rule fold_put16_other)
  fix x
  show "k \<noteq> sampleOffset (numberOfChannels b) x \<and> k \<noteq> sampleOffset (numberOfChannels b) x + 1"
    using assms sampleOffset_ge [of "numberOfChannels b" x] by simp
qed

lemma putSamples_sample:
  assumes "c < numberOfChannels b" "i < length_frames b"
    and "length view = 44 + length_frames b * numberOfChannels b * 2"
  shows "putSamples b view ! (44 + (i * numberOfChannels b + c) * 2)
           = ucast (pcm16 (channelData b ! c ! i))
       \<and> putSamples b view ! (44 + (i * numberOfChannels b + c) * 2 + 1)
           = ucast (drop_bit 8 (pcm16 (channelData b ! c ! i)))"
proof -
  let ?C = "numberOfChannels b"
  have member: "(c, i) \<in> set (samplePairs b)"
    using assms(1,2) by (simp add: samplePairs_def)
  have distinct: "distinct (samplePairs b)"
    by (simp add: samplePairs_def distinct_product)
  have apart: "sampleOffset ?C x \<noteq> sampleOffset ?C y \<and> sampleOffset ?C x \<noteq> sampleOffset ?C y + 1"
    if "x \<in> set (samplePairs b)" "y \<in> set (samplePairs b)" "x \<noteq> y" for x y
  proof -
    from that(1,2) have "fst x < ?C" "fst y < ?C"
      by (auto simp add: samplePairs_def)
    then have "snd x * ?C + fst x \<noteq> snd y * ?C + fst y"
      using slot_inj [of "fst x" ?C "fst y" "snd x" "snd y"] that(3)
      by (auto simp add: prod_eq_iff)
    then show ?thesis
      by (simp add: sampleOffset_def)
  qed
  have inside: "sampleOffset ?C x + 2 \<le> length view" if "x \<in> set (samplePairs b)" for x
  proof -
    from that have "fst x < ?C" "snd x < length_frames b"
      by (auto simp add: samplePairs_def)
    then have "snd x * ?C + fst x < length_frames b * ?C"
      using slot_less by blast
    then show ?thesis
      using assms(3) by (simp add: sampleOffset_def)
  qed
  have "fold (\<lambda>x view. put16 view (sampleOffset ?C x) (pcm16 (channelData b ! fst x ! snd x)))
          (samplePairs b) view ! sampleOffset ?C (c, i)
        = ucast (pcm16 (channelData b ! fst (c, i) ! snd (c, i)))
      \<and> fold (\<lambda>x view. put16 view (sampleOffset ?C x) (pcm16 (channelData b ! fst x ! snd x)))
          (samplePairs b) view ! (sampleOffset ?C (c, i) + 1)
        = ucast (drop_bit 8 (pcm16 (channelData b ! fst (c, i) ! snd (c, i))))"
    using member distinct apart inside by (rule fold_put16_written)
  then show ?thesis
    by (simp add: putSamples_def sampleOffset_def)
qed

lemma getUint32_header:
  "getUint32 (wavHeader b @ rest) 4 = word_of_nat (36 + length_frames b * numberOfChannels b * 2)"
  "getUint32 (wavHeader b @ rest) 40 = word_of_nat (length_frames b * numberOfChannels b * 2)"
  by (simp_all add: getUint32_def wavHeader_def le32_def le16_def Let_def le32_roundtrip
      del: of_nat_add of_nat_mult)

lemma getUint32_putSamples:
  assumes "off + 3 < 44"
  shows "getUint32 (putSamples b view) off = getUint32 view off"
  using assms by (simp add: getUint32_def putSamples_header)

lemma getInt16_putSamples:
  assumes "c < numberOfChannels b" "i < length_frames b"
    and "length view = 44 + length_frames b * numberOfChannels b * 2"
  shows "getInt16 (putSamples b view) (44 + (i * numberOfChannels b + c) * 2)
         = js_trunc (max (- 1) (min 1 (channelData b ! c ! i)) * 32767)"
  using putSamples_sample [OF assms]
  by (simp add: getInt16_def le16_roundtrip sint_pcm16)

text \<open>
  C7. The encoder always returns bytes: \<open>44 + L * C * 2\<close> of them for a buffer of \<open>L\<close>
  frames and \<open>C\<close> channels. The first 44 are the header; its RIFF size field holds
  \<open>36 + L * C * 2\<close> and its data size field \<open>L * C * 2\<close> as 32-bit values, which are these
  numbers whenever the file size fits 32 bits. The sample of frame \<open>i\<close> and channel \<open>c\<close>
  is read back, as a little-endian signed 16-bit integer at offset
  \<open>44 + (i * C + c) * 2\<close>, as the float clamped to \<open>[-1, 1]\<close>, scaled by 32767 and
  truncated; a zero sample is read back as zero.
\<close>

theorem wav_encoding:
  "\<exists>bytes. exportToBuffer b = Inr bytes
     \<and> length bytes = 44 + length_frames b * numberOfChannels b * 2
     \<and> take 44 bytes = wavHeader b
     \<and> getUint32 bytes 4 = word_of_nat (36 + length_frames b * numberOfChannels b * 2)
     \<and> getUint32 bytes 40 = word_of_nat (length_frames b * numberOfChannels b * 2)
     \<and> (36 + length_frames b * numberOfChannels b * 2 < 2 ^ 32 \<longrightarrow>
          unat (getUint32 bytes 4) = 36 + length_frames b * numberOfChannels b * 2
          \<and> unat (getUint32 bytes 40) = length_frames b * numberOfChannels b * 2)
     \<and> (\<forall>c < numberOfChannels b. \<forall>i < length_frames b.
          getInt16 bytes (44 + (i * numberOfChannels b + c) * 2)
          = js_trunc (max (- 1) (min 1 (channelData b ! c ! i)) * 32767))
     \<and> (\<forall>c < numberOfChannels b. \<forall>i < length_frames b.
          channelData b ! c ! i = 0 \<longrightarrow>
          getInt16 bytes (44 + (i * numberOfChannels b + c) * 2) = 0)"
proof -
  let ?len = "length_frames b * numberOfChannels b * 2"
  let ?view = "wavHeader b @ replicate ?len 0"
  let ?bytes = "putSamples b ?view"
  have view: "length ?view = 44 + ?len"
    by (simp add: length_wavHeader)
  have result: "exportToBuffer b = Inr ?bytes"
    by (rule exportToBuffer_eq)
  have size: "length ?bytes = 44 + ?len"
    by (simp add: putSamples_length length_wavHeader)
  have "take 44 ?bytes = take 44 ?view"
    by (rule nth_take_lemma) (simp_all add: putSamples_length length_wavHeader putSamples_header)
  then have header: "take 44 ?bytes = wavHeader b"
    by (simp add: length_wavHeader)
  have riff: "getUint32 ?bytes 4 = word_of_nat (36 + ?len)"
    by (simp add: getUint32_putSamples getUint32_header)
  have data: "getUint32 ?bytes 40 = word_of_nat ?len"
    by (simp add: getUint32_putSamples getUint32_header)
  have fits: "36 + ?len < 2 ^ 32 \<longrightarrow>
      unat (getUint32 ?bytes 4) = 36 + ?len \<and> unat (getUint32 ?bytes 40) = ?len"
    unfolding riff data by (simp add: unat_of_nat del: of_nat_add of_nat_mult)
  have samples: "\<forall>c < numberOfChannels b. \<forall>i < length_frames b.
      getInt16 ?bytes (44 + (i * numberOfChannels b + c) * 2)
      = js_trunc (max (- 1) (min 1 (channelData b ! c ! i)) * 32767)"
  proof (intro allI impI)
    fix c i
    assume "c < numberOfChannels b" and "i < length_frames b"
    then show "getInt16 ?bytes (44 + (i * numberOfChannels b + c) * 2)
      = js_trunc (max (- 1) (min 1 (channelData b ! c ! i)) * 32767)"
      using view by (rule getInt16_putSamples)
  qed
  then have zeros: "\<forall>c < numberOfChannels b. \<forall>i < length_frames b.
      channelData b ! c ! i = 0 \<longrightarrow> getInt16 ?bytes (44 + (i * numberOfChannels b + c) * 2) = 0"
    by (simp add: js_trunc_def)
  from result size header riff data fits samples zeros show ?thesis
    by blast
qed

theorem wav_encoding_witness:
  "(0 :: nat) < numberOfChannels \<lparr>AudioBuffer.sampleRate = 44100, length_frames = 2, channelData = [[0, 0], [0, 0]]\<rparr>
   \<and> (0 :: nat) < length_frames \<lparr>AudioBuffer.sampleRate = 44100, length_frames = 2, channelData = [[0, 0], [0, 0]]\<rparr>
   \<and> (36 :: nat) + 2 * 2 * 2 < 2 ^ 32
   \<and> channelData \<lparr>AudioBuffer.sampleRate = 44100, length_frames = 2, channelData = [[0, 0], [0, 0]]\<rparr> ! 0 ! 0 = 0
   \<and> (\<exists>bytes. exportToBuffer \<lparr>AudioBuffer.sampleRate = 44100, length_frames = 2, channelData = [[0, 0], [0, 0]]\<rparr> = Inr bytes
         \<and> length bytes = 44 + 2 * 2 * 2
         \<and> unat (getUint32 bytes 4) = 36 + 2 * 2 * 2
         \<and> unat (getUint32 bytes 40) = 2 * 2 * 2
         \<and> getInt16 bytes 44 = 0)"
proof -
  let ?b = "\<lparr>AudioBuffer.sampleRate = 44100, length_frames = 2, channelData = [[0, 0], [0, 0]]\<rparr>"
  have channels: "numberOfChannels ?b = 2" and frames: "length_frames ?b = 2"
    by (simp_all add: numberOfChannels_def)
  from wav_encoding [of ?b] obtain bytes where
    result: "exportToBuffer ?b = Inr bytes"
    and size: "length bytes = 44 + length_frames ?b * numberOfChannels ?b * 2"
    and fits: "36 + length_frames ?b * numberOfChannels ?b * 2 < 2 ^ 32 \<longrightarrow>
          unat (getUint32 bytes 4) = 36 + length_frames ?b * numberOfChannels ?b * 2
          \<and> unat (getUint32 bytes 40) = length_frames ?b * numberOfChannels ?b * 2"
    and zeros: "\<forall>c < numberOfChannels ?b. \<forall>i < length_frames ?b.
          channelData ?b ! c ! i = 0 \<longrightarrow>
          getInt16 bytes (44 + (i * numberOfChannels ?b + c) * 2) = 0"
    by blast
  from zeros [rule_format, of 0 0]
  have "getInt16 bytes (44 + (0 * numberOfChannels ?b + 0) * 2) = 0"
    unfolding channels frames by simp
  then have first: "getInt16 bytes 44 = 0"
    by simp
  from fits have "unat (getUint32 bytes 4) = 36 + 2 * 2 * 2 \<and> unat (getUint32 bytes 40) = 2 * 2 * 2"
    unfolding channels frames by simp
  with result size first show ?thesis
    unfolding channels frames by simp
qed

subsection \<open>The example mix\<close>

lemma replicate_10_zeros: "replicate 10 (0::real) = [0,0,0,0,0,0,0,0,0,0]"
  by (simp add: numeral_eq_Suc)

lemmas example_mix_defs = mixSegment_def exampleSegmentA_def exampleSegmentB_def
  exampleBufferA_def exampleBufferB_def exampleMix_def numberOfChannels_def
  Let_def number_or_def upt_0_2 mixSamples.simps sampleGain_def typed_array_add_def

lemma example_A_first:
  "mixSegment 8000 10 exampleSegmentA True exampleBufferA (exampleMix 0) = Inr (exampleMix (1 / 4))"
  by (simp add: example_mix_defs)

lemma example_B_last:
  "mixSegment 8000 10 exampleSegmentB False exampleBufferB (exampleMix (1 / 4)) = Inr (exampleMix (1 / 2))"
  by (simp add: example_mix_defs)

lemma example_B_first:
  "mixSegment 8000 10 exampleSegmentB True exampleBufferB (exampleMix 0) = Inr (exampleMix (1 / 8))"
  by (simp add: example_mix_defs)

lemma example_A_last:
  "mixSegment 8000 10 exampleSegmentA False exampleBufferA (exampleMix (1 / 8)) = Inr (exampleMix (5 / 8))"
  by (simp add: example_mix_defs)

lemma example_fetch:
  "fetchAudioBuffer examplePlatform (AudioSegment.audioUrl exampleSegmentA) = Inr exampleBufferA"
  "fetchAudioBuffer examplePlatform (AudioSegment.audioUrl exampleSegmentB) = Inr exampleBufferB"
  by (simp_all add: examplePlatform_def exampleSegmentA_def exampleSegmentB_def latin1_eq_iff)

lemma example_createBuffer: "createBuffer 2 10 8000 = Inr (exampleMix 0)"
  by (simp add: createBuffer_def exampleMix_def replicate_10_zeros numeral_2_eq_2)

lemma example_totalDuration:
  "totalDurationOf [exampleSegmentA, exampleSegmentB] = 1 / 800"
  "totalDurationOf [exampleSegmentB, exampleSegmentA] = 1 / 800"
  by (simp_all add: totalDurationOf_def exampleSegmentA_def exampleSegmentB_def)

lemma example_maxValue:
  "maxValue (exampleMix (1 / 2)) = 1 / 2" "maxValue (exampleMix (5 / 8)) = 5 / 8"
  by (simp_all add: maxValue_def exampleMix_def)

lemma example_mix_AB:
  "mixAndNormalize exampleContext examplePlatform [exampleSegmentA, exampleSegmentB]
   = Inr (exampleMix (1 / 2))"
  by (simp add: mixAndNormalize_def exampleContext_def example_totalDuration example_createBuffer
      and_then_Inr example_fetch example_A_first example_B_last normalizeBuffer_def example_maxValue)

lemma example_mix_BA:
  "mixAndNormalize exampleContext examplePlatform [exampleSegmentB, exampleSegmentA]
   = Inr (exampleMix (5 / 8))"
  by (simp add: mixAndNormalize_def exampleContext_def example_totalDuration example_createBuffer
      and_then_Inr example_fetch example_B_first example_A_last normalizeBuffer_def example_maxValue)

lemma example_sort:
  "sort_key startTime [exampleSegmentA, exampleSegmentB] = [exampleSegmentA, exampleSegmentB]"
  "sort_key startTime [exampleSegmentB, exampleSegmentA] = [exampleSegmentB, exampleSegmentA]"
  by (simp_all add: exampleSegmentA_def exampleSegmentB_def)

lemma example_pcm16: "pcm16 (1 / 2) = 16383" "pcm16 (5 / 8) = 20479"
  by (simp_all add: pcm16_def toInt16_def js_trunc_def)

lemma example_export_byte:
  "\<exists>bytes. exportToBuffer (exampleMix x) = Inr bytes \<and> bytes ! 49 = ucast (drop_bit 8 (pcm16 x))"
proof -
  let ?b = "exampleMix x"
  let ?view = "wavHeader ?b @ replicate (length_frames ?b * numberOfChannels ?b * 2) 0"
  have C: "numberOfChannels ?b = 2" and L: "length_frames ?b = 10"
    by (simp_all add: numberOfChannels_def exampleMix_def)
  have "length ?view = 44 + length_frames ?b * numberOfChannels ?b * 2"
    by (simp add: length_wavHeader)
  with putSamples_sample [of 0 ?b 1 ?view]
  have "putSamples ?b ?view ! (44 + (1 * numberOfChannels ?b + 0) * 2 + 1)
          = ucast (drop_bit 8 (pcm16 (channelData ?b ! 0 ! 1)))"
    unfolding C L by simp
  then have "putSamples ?b ?view ! 49 = ucast (drop_bit 8 (pcm16 x))"
    unfolding C by (simp add: exampleMix_def)
  then show ?thesis
    using exportToBuffer_eq [of ?b] by simp
qed

subsection \<open>Order of the input segments\<close>

lemma sort_key_same_ties:
  fixes f :: "'a \<Rightarrow> 'k :: linorder"
  assumes "mset xs = mset ys"
    and "\<forall>t. filter (\<lambda>x. f x = t) xs = filter (\<lambda>x. f x = t) ys"
  shows "sort_key f xs = sort_key f ys"
proof (rule properties_for_sort_key)
  show "mset (sort_key f ys) = mset xs"
    using assms(1) by simp
  show "sorted (map f (sort_key f ys))"
    by simp
  fix k
  have "filter (\<lambda>x. f k = f x) (sort_key f ys) = filter (\<lambda>x. f x = f k) (sort_key f ys)"
    by (simp add: eq_commute)
  also have "\<dots> = filter (\<lambda>x. f x = f k) ys"
    by (rule sort_key_stable)
  also have "\<dots> = filter (\<lambda>x. f x = f k) xs"
    using assms(2) by simp
  also have "\<dots> = filter (\<lambda>x. f k = f x) xs"
    by (simp add: eq_commute)
  finally show "filter (\<lambda>x. f k = f x) (sort_key f ys) = filter (\<lambda>x. f k = f x) xs" .
qed

lemma mixGeneralPath_sorted:
  "sort_key startTime xs = sort_key startTime ys \<Longrightarrow>
   mixGeneralPath context platform xs = mixGeneralPath context platform ys"
  by (simp add: mixGeneralPath_def)

lemma mixAudioSegments_sorted:
  assumes "mset xs = mset ys" and "sort_key startTime xs = sort_key startTime ys"
  shows "mixAudioSegments service platform xs = mixAudioSegments service platform ys"
proof -
  from assms(1) have len: "length xs = length ys"
    by (rule mset_eq_length)
  have one: "xs = ys" if "length xs = 1"
  proof -
    from that len obtain a b where "xs = [a]" "ys = [b]"
      by (metis One_nat_def length_0_conv length_Suc_conv)
    with assms(1) show ?thesis by simp
  qed
  show ?thesis
  proof (cases "length xs = 1")
    case True
    then show ?thesis using one by simp
  next
    case False
    then show ?thesis
      using len mixGeneralPath_sorted [OF assms(2)]
      by (simp add: mixAudioSegments_def split: option.splits)
  qed
qed

lemma filter_key_at_most_one:
  "distinct (map f xs) \<Longrightarrow> length (filter (\<lambda>x. f x = t) xs) \<le> 1"
proof (induction xs)
  case Nil
  then show ?case by simp
next
  case (Cons x xs)
  show ?case
  proof (cases "f x = t")
    case True
    from Cons.prems have "f x \<notin> f ` set xs" by simp
    with True have "\<forall>y \<in> set xs. f y \<noteq> t" by (metis imageI)
    then have "filter (\<lambda>x. f x = t) xs = []" by (simp add: filter_empty_conv)
    then show ?thesis by simp
  next
    case False
    then show ?thesis using Cons by simp
  qed
qed

lemma short_lists_equal:
  assumes "mset xs = mset ys" and "length xs \<le> 1"
  shows "xs = ys"
proof (cases xs)
  case Nil
  then show ?thesis using assms(1) by simp
next
  case (Cons a as)
  with assms(2) have "xs = [a]" by simp
  then show ?thesis using assms(1) by simp
qed

lemma distinct_starts_same_ties:
  assumes "mset xs = mset ys" and "distinct (map f xs)"
  shows "filter (\<lambda>x. f x = t) xs = filter (\<lambda>x. f x = t) ys"
proof (rule short_lists_equal)
  show "mset (filter (\<lambda>x. f x = t) xs) = mset (filter (\<lambda>x. f x = t) ys)"
    using assms(1) by simp
  show "length (filter (\<lambda>x. f x = t) xs) \<le> 1"
    using assms(2) by (rule filter_key_at_most_one)
qed

text \<open>
  C8, as the code has it. Two orders of the same segments give the same bytes, total
  duration and sorted segments, and the same result of \<^verbatim>\<open>mixAudioSegments\<close>, when they
  list the segments of equal start time in the same relative order; in particular when
  no two segments start at the same time.
\<close>

theorem mix_independent_of_order:
  "(mset xs = mset ys
      \<and> (\<forall>t. filter (\<lambda>seg. startTime seg = t) xs = filter (\<lambda>seg. startTime seg = t) ys)
    \<longrightarrow> mixGeneralPath ctx platform xs = mixGeneralPath ctx platform ys
        \<and> mixAudioSegments service platform xs = mixAudioSegments service platform ys)
   \<and> (mset xs = mset ys \<and> distinct (map startTime xs)
    \<longrightarrow> mixGeneralPath ctx platform xs = mixGeneralPath ctx platform ys
        \<and> mixAudioSegments service platform xs = mixAudioSegments service platform ys)"
proof -
  have stable: "mixGeneralPath ctx platform xs = mixGeneralPath ctx platform ys
        \<and> mixAudioSegments service platform xs = mixAudioSegments service platform ys"
    if same: "mset xs = mset ys"
      and ties: "\<forall>t. filter (\<lambda>seg. startTime seg = t) xs = filter (\<lambda>seg. startTime seg = t) ys"
  proof -
    from same ties have sorted: "sort_key startTime xs = sort_key startTime ys"
      by (rule sort_key_same_ties)
    then have "mixGeneralPath ctx platform xs = mixGeneralPath ctx platform ys"
      by (rule mixGeneralPath_sorted)
    moreover from same sorted
    have "mixAudioSegments service platform xs = mixAudioSegments service platform ys"
      by (rule mixAudioSegments_sorted)
    ultimately show ?thesis
      by (rule conjI)
  qed
  have "\<forall>t. filter (\<lambda>seg. startTime seg = t) xs = filter (\<lambda>seg. startTime seg = t) ys"
    if "mset xs = mset ys" and "distinct (map startTime xs)"
    using that by (intro allI distinct_starts_same_ties)
  with stable show ?thesis
    by blast
qed

theorem mix_independent_of_order_witness:
  "mset [\<lparr>startTime = 1, duration = 2, audioUrl = latin1 ''b'', environment = None,
           volume = None, fadeIn = None, fadeOut = None\<rparr>,
         \<lparr>startTime = 0, duration = 1.5, audioUrl = latin1 ''a'', environment = None,
           volume = None, fadeIn = None, fadeOut = None\<rparr>]
   = mset [\<lparr>startTime = 0, duration = 1.5, audioUrl = latin1 ''a'', environment = None,
             volume = None, fadeIn = None, fadeOut = None\<rparr>,
           \<lparr>startTime = 1, duration = 2, audioUrl = latin1 ''b'', environment = None,
             volume = None, fadeIn = None, fadeOut = None\<rparr>]
   \<and> distinct (map startTime
         [\<lparr>startTime = 1, duration = 2, audioUrl = latin1 ''b'', environment = None,
           volume = None, fadeIn = None, fadeOut = None\<rparr>,
          \<lparr>startTime = 0, duration = 1.5, audioUrl = latin1 ''a'', environment = None,
           volume = None, fadeIn = None, fadeOut = None\<rparr>])
   \<and> mixGeneralPath exampleContext examplePlatform
         [\<lparr>startTime = 1, duration = 2, audioUrl = latin1 ''b'', environment = None,
           volume = None, fadeIn = None, fadeOut = None\<rparr>,
          \<lparr>startTime = 0, duration = 1.5, audioUrl = latin1 ''a'', environment = None,
           volume = None, fadeIn = None, fadeOut = None\<rparr>]
     = mixGeneralPath exampleContext examplePlatform
         [\<lparr>startTime = 0, duration = 1.5, audioUrl = latin1 ''a'', environment = None,
           volume = None, fadeIn = None, fadeOut = None\<rparr>,
          \<lparr>startTime = 1, duration = 2, audioUrl = latin1 ''b'', environment = None,
           volume = None, fadeIn = None, fadeOut = None\<rparr>]"
proof -
  let ?A = "\<lparr>startTime = 0, duration = 1.5, audioUrl = latin1 ''a'', environment = None,
           volume = None, fadeIn = None, fadeOut = None\<rparr>"
  let ?B = "\<lparr>startTime = 1, duration = 2, audioUrl = latin1 ''b'', environment = None,
           volume = None, fadeIn = None, fadeOut = None\<rparr>"
  have same: "mset [?B, ?A] = mset [?A, ?B]"
    by (simp add: add.commute)
  have apart: "distinct (map startTime [?B, ?A])"
    by simp
  have ties: "\<forall>t. filter (\<lambda>seg. startTime seg = t) [?B, ?A] = filter (\<lambda>seg. startTime seg = t) [?A, ?B]"
    by simp
  from mix_independent_of_order [where xs = "[?B, ?A]" and ys = "[?A, ?B]"
      and ctx = exampleContext and platform = examplePlatform] same apart ties
  have "mixGeneralPath exampleContext examplePlatform [?B, ?A]
        = mixGeneralPath exampleContext examplePlatform [?A, ?B]"
    by blast
  with same apart show ?thesis
    by (intro conjI)
qed

text \<open>
  The claim as worded fails when two segments start at the same time: the stable sort
  keeps them in the order of the input, and only the last segment of the sorted list
  goes without the computed crossfade of its fade-out. With the two example segments the
  second frame of the mix is 0.5 in one order and 0.625 in the other, and the encoded
  bytes differ.
\<close>

theorem mix_order_counterexample:
  "mset [exampleSegmentA, exampleSegmentB] = mset [exampleSegmentB, exampleSegmentA]
   \<and> mixAndNormalize exampleContext examplePlatform (sort_key startTime [exampleSegmentA, exampleSegmentB])
       = Inr (exampleMix (1 / 2))
   \<and> mixAndNormalize exampleContext examplePlatform (sort_key startTime [exampleSegmentB, exampleSegmentA])
       = Inr (exampleMix (5 / 8))
   \<and> mixGeneralPath exampleContext examplePlatform [exampleSegmentA, exampleSegmentB]
       \<noteq> mixGeneralPath exampleContext examplePlatform [exampleSegmentB, exampleSegmentA]"
proof -
  obtain bytes1 where export1: "exportToBuffer (exampleMix (1 / 2)) = Inr bytes1"
    and byte1: "bytes1 ! 49 = ucast (drop_bit 8 (pcm16 (1 / 2)))"
    using example_export_byte by blast
  obtain bytes2 where export2: "exportToBuffer (exampleMix (5 / 8)) = Inr bytes2"
    and byte2: "bytes2 ! 49 = ucast (drop_bit 8 (pcm16 (5 / 8)))"
    using example_export_byte by blast
  have "bytes1 ! 49 = 63" "bytes2 ! 49 = 79"
    unfolding byte1 byte2 example_pcm16 by simp_all
  then have "bytes1 \<noteq> bytes2"
    by auto
  then have "mixGeneralPath exampleContext examplePlatform [exampleSegmentA, exampleSegmentB]
       \<noteq> mixGeneralPath exampleContext examplePlatform [exampleSegmentB, exampleSegmentA]"
    unfolding mixGeneralPath_def example_sort Let_def example_mix_AB example_mix_BA and_then_Inr
      export1 export2
    by simp
  moreover have "mset [exampleSegmentA, exampleSegmentB] = mset [exampleSegmentB, exampleSegmentA]"
    by (simp add: add.commute)
  ultimately show ?thesis
    unfolding example_sort example_mix_AB example_mix_BA by simp
qed

subsection \<open>Bound after normalization\<close>

lemma foldl_peak_attained:
  "foldl (\<lambda>m x. if \<bar>x\<bar> > m then \<bar>x\<bar> else m) m (xs :: real list) = m
   \<or> (\<exists>x \<in> set xs. foldl (\<lambda>m x. if \<bar>x\<bar> > m then \<bar>x\<bar> else m) m xs = \<bar>x\<bar>)"
proof (induction xs arbitrary: m)
  case Nil
  show ?case by simp
next
  case (Cons y ys)
  let ?F = "\<lambda>m x :: real. if \<bar>x\<bar> > m then \<bar>x\<bar> else m"
  show ?case
  proof (cases "\<bar>y\<bar> > m")
    case True
    then have step: "foldl ?F m (y # ys) = foldl ?F \<bar>y\<bar> ys"
      by simp
    from Cons.IH [of "\<bar>y\<bar>"] show ?thesis
    proof
      assume "foldl ?F \<bar>y\<bar> ys = \<bar>y\<bar>"
      with step have "foldl ?F m (y # ys) = \<bar>y\<bar>" by simp
      then show ?thesis by simp
    next
      assume "\<exists>x \<in> set ys. foldl ?F \<bar>y\<bar> ys = \<bar>x\<bar>"
      then obtain x where "x \<in> set ys" and "foldl ?F \<bar>y\<bar> ys = \<bar>x\<bar>" by (rule bexE)
      with step have "x \<in> set (y # ys)" and "foldl ?F m (y # ys) = \<bar>x\<bar>" by simp_all
      then show ?thesis by (intro disjI2 bexI)
    qed
  next
    case False
    then have step: "foldl ?F m (y # ys) = foldl ?F m ys"
      by simp
    from Cons.IH [of m] show ?thesis
    proof
      assume "foldl ?F m ys = m"
      with step show ?thesis by simp
    next
      assume "\<exists>x \<in> set ys. foldl ?F m ys = \<bar>x\<bar>"
      then obtain x where "x \<in> set ys" and "foldl ?F m ys = \<bar>x\<bar>" by (rule bexE)
      with step have "x \<in> set (y # ys)" and "foldl ?F m (y # ys) = \<bar>x\<bar>" by simp_all
      then show ?thesis by (intro disjI2 bexI)
    qed
  qed
qed

lemma foldl_channels_attained:
  "foldl (\<lambda>m channel. foldl (\<lambda>m x. if \<bar>x\<bar> > m then \<bar>x\<bar> else m) m channel) m (cs :: real list list) = m
   \<or> (\<exists>c \<in> set cs. \<exists>x \<in> set c.
        foldl (\<lambda>m channel. foldl (\<lambda>m x. if \<bar>x\<bar> > m then \<bar>x\<bar> else m) m channel) m cs = \<bar>x\<bar>)"
proof (induction cs arbitrary: m)
  case Nil
  show ?case by simp
next
  case (Cons d ds)
  let ?F = "\<lambda>m x :: real. if \<bar>x\<bar> > m then \<bar>x\<bar> else m"
  let ?G = "\<lambda>m channel. foldl ?F m channel"
  let ?m = "foldl ?F m d"
  have step: "foldl ?G m (d # ds) = foldl ?G ?m ds"
    by simp
  from Cons.IH [of ?m] show ?case
  proof
    assume rest: "foldl ?G ?m ds = ?m"
    from foldl_peak_attained [of m d] show ?thesis
    proof
      assume "?m = m"
      with rest step show ?thesis by simp
    next
      assume "\<exists>x \<in> set d. ?m = \<bar>x\<bar>"
      then obtain x where "x \<in> set d" and "?m = \<bar>x\<bar>" by (rule bexE)
      with rest step have "d \<in> set (d # ds)" and "x \<in> set d" and "foldl ?G m (d # ds) = \<bar>x\<bar>"
        by simp_all
      then show ?thesis by (intro disjI2 bexI)
    qed
  next
    assume "\<exists>c \<in> set ds. \<exists>x \<in> set c. foldl ?G ?m ds = \<bar>x\<bar>"
    then obtain c x where "c \<in> set ds" and "x \<in> set c" and "foldl ?G ?m ds = \<bar>x\<bar>"
      by blast
    with step have "c \<in> set (d # ds)" and "x \<in> set c" and "foldl ?G m (d # ds) = \<bar>x\<bar>"
      by simp_all
    then show ?thesis by (intro disjI2 bexI)
  qed
qed

lemma maxValue_attained:
  "maxValue b = 0 \<or> (\<exists>c \<in> set (channelData b). \<exists>x \<in> set c. maxValue b = \<bar>x\<bar>)"
  unfolding maxValue_def by (rule foldl_channels_attained)

lemma mixAndNormalize_normalized:
  assumes "mixAndNormalize ctx platform segs = Inr mixBuffer"
  shows "\<exists>b. mixBuffer = normalizeBuffer b 0.9"
  using assms
  by (auto simp add: mixAndNormalize_def Let_def and_then_def split: sum.splits)

text \<open>
  C1. \<^verbatim>\<open>normalizeBuffer\<close> finds the peak absolute value of all the samples of all the
  channels (or 0), leaves the buffer as it is when the peak is at most 0.9 and otherwise
  multiplies every sample by \<open>0.9 / peak\<close>; afterwards no sample of any channel exceeds
  0.9 in absolute value. This holds of every mix buffer that the general path produces.
\<close>

theorem normalization_bound:
  "(\<forall>c \<in> set (channelData b). \<forall>x \<in> set c. \<bar>x\<bar> \<le> maxValue b)
   \<and> (maxValue b = 0 \<or> (\<exists>c \<in> set (channelData b). \<exists>x \<in> set c. maxValue b = \<bar>x\<bar>))
   \<and> (maxValue b \<le> 0.9 \<longrightarrow> normalizeBuffer b 0.9 = b)
   \<and> (0.9 < maxValue b \<longrightarrow>
        channelData (normalizeBuffer b 0.9)
        = map (map (\<lambda>x. x * (0.9 / maxValue b))) (channelData b))
   \<and> (\<forall>c \<in> set (channelData (normalizeBuffer b 0.9)). \<forall>x \<in> set c. \<bar>x\<bar> \<le> 0.9)
   \<and> (mixAndNormalize ctx platform segs = Inr mixBuffer \<longrightarrow>
        (\<forall>c \<in> set (channelData mixBuffer). \<forall>x \<in> set c. \<bar>x\<bar> \<le> 0.9))"
proof -
  have peak: "\<forall>c \<in> set (channelData b). \<forall>x \<in> set c. \<bar>x\<bar> \<le> maxValue b"
    by (simp add: maxValue_bound)
  have quiet: "maxValue b \<le> 0.9 \<longrightarrow> normalizeBuffer b 0.9 = b"
    by (simp add: normalizeBuffer_def)
  have loud: "0.9 < maxValue b \<longrightarrow>
        channelData (normalizeBuffer b 0.9)
        = map (map (\<lambda>x. x * (0.9 / maxValue b))) (channelData b)"
    by (simp add: normalizeBuffer_def Let_def)
  have bound: "\<forall>c \<in> set (channelData (normalizeBuffer b' 0.9)). \<forall>x \<in> set c. \<bar>x\<bar> \<le> 0.9" for b'
    using normalizeBuffer_within_target [of "0.9" _ b'] by simp
  have path: "mixAndNormalize ctx platform segs = Inr mixBuffer \<longrightarrow>
        (\<forall>c \<in> set (channelData mixBuffer). \<forall>x \<in> set c. \<bar>x\<bar> \<le> 0.9)"
  proof
    assume "mixAndNormalize ctx platform segs = Inr mixBuffer"
    then obtain b' where "mixBuffer = normalizeBuffer b' 0.9"
      using mixAndNormalize_normalized by blast
    then show "\<forall>c \<in> set (channelData mixBuffer). \<forall>x \<in> set c. \<bar>x\<bar> \<le> 0.9"
      using bound [of b'] by simp
  qed
  from peak maxValue_attained [of b] quiet loud bound [of b] path show ?thesis
    by (intro conjI)
qed

theorem normalization_bound_witness:
  "[9 / 5, - 9 / 20] \<in> set (channelData \<lparr>AudioBuffer.sampleRate = 8000, length_frames = 2,
                                         channelData = [[9 / 5, - 9 / 20], [9 / 10, 0]]\<rparr>)
   \<and> (9 / 5 :: real) \<in> set [9 / 5, - 9 / 20]
   \<and> (9 / 10 :: real) < maxValue \<lparr>AudioBuffer.sampleRate = 8000, length_frames = 2,
                                   channelData = [[9 / 5, - 9 / 20], [9 / 10, 0]]\<rparr>
   \<and> maxValue \<lparr>AudioBuffer.sampleRate = 8000, length_frames = 2,
                 channelData = [[9 / 5, - 9 / 20], [9 / 10, 0]]\<rparr> = 9 / 5
   \<and> channelData (normalizeBuffer \<lparr>AudioBuffer.sampleRate = 8000, length_frames = 2,
                 channelData = [[9 / 5, - 9 / 20], [9 / 10, 0]]\<rparr> 0.9)
       = [[9 / 10, - 9 / 40], [9 / 20, 0]]
   \<and> maxValue (exampleMix (1 / 2)) \<le> 0.9
   \<and> normalizeBuffer (exampleMix (1 / 2)) 0.9 = exampleMix (1 / 2)
   \<and> mixAndNormalize exampleContext examplePlatform [exampleSegmentA, exampleSegmentB]
       = Inr (exampleMix (1 / 2))
   \<and> [0, 1 / 2, 0, 0, 0, 0, 0, 0, 0, 0] \<in> set (channelData (exampleMix (1 / 2)))
   \<and> (1 / 2 :: real) \<in> set [0, 1 / 2, 0, 0, 0, 0, 0, 0, 0, 0]
   \<and> \<bar>1 / 2 :: real\<bar> \<le> 0.9"
proof -
  let ?b = "\<lparr>AudioBuffer.sampleRate = 8000, length_frames = 2,
             channelData = [[9 / 5, - 9 / 20], [9 / 10, 0]]\<rparr>"
  have channel: "[9 / 5, - 9 / 20] \<in> set (channelData ?b)"
    and sample: "(9 / 5 :: real) \<in> set [9 / 5, - 9 / 20]"
    by simp_all
  have peak: "maxValue ?b = 9 / 5"
    by (simp add: maxValue_def)
  then have loud: "(9 / 10 :: real) < maxValue ?b"
    by simp
  note loud_instance = normalization_bound [where b = ?b and ctx = exampleContext
      and platform = examplePlatform and segs = "[exampleSegmentA, exampleSegmentB]"
      and mixBuffer = "exampleMix (1 / 2)"]
  from loud_instance have "0.9 < maxValue ?b \<longrightarrow>
      channelData (normalizeBuffer ?b 0.9) = map (map (\<lambda>x. x * (0.9 / maxValue ?b))) (channelData ?b)"
    by (rule conjunct1 [OF conjunct2 [OF conjunct2 [OF conjunct2]]])
  with loud
  have "channelData (normalizeBuffer ?b 0.9) = map (map (\<lambda>x. x * (0.9 / maxValue ?b))) (channelData ?b)"
    by simp
  then have scaled: "channelData (normalizeBuffer ?b 0.9) = [[9 / 10, - 9 / 40], [9 / 20, 0]]"
    unfolding peak by simp
  have quiet: "maxValue (exampleMix (1 / 2)) \<le> 0.9"
    by (simp add: example_maxValue)
  from normalization_bound [where b = "exampleMix (1 / 2)"]
  have "maxValue (exampleMix (1 / 2)) \<le> 0.9 \<longrightarrow>
      normalizeBuffer (exampleMix (1 / 2)) 0.9 = exampleMix (1 / 2)"
    by (rule conjunct1 [OF conjunct2 [OF conjunct2]])
  with quiet have unchanged: "normalizeBuffer (exampleMix (1 / 2)) 0.9 = exampleMix (1 / 2)"
    by simp
  have mixed: "mixAndNormalize exampleContext examplePlatform [exampleSegmentA, exampleSegmentB]
       = Inr (exampleMix (1 / 2))"
    by (rule example_mix_AB)
  have channel': "[0, 1 / 2, 0, 0, 0, 0, 0, 0, 0, 0] \<in> set (channelData (exampleMix (1 / 2)))"
    and sample': "(1 / 2 :: real) \<in> set [0, 1 / 2, 0, 0, 0, 0, 0, 0, 0, 0]"
    by (simp_all add: exampleMix_def)
  from loud_instance have "mixAndNormalize exampleContext examplePlatform
        [exampleSegmentA, exampleSegmentB] = Inr (exampleMix (1 / 2)) \<longrightarrow>
      (\<forall>c \<in> set (channelData (exampleMix (1 / 2))). \<forall>x \<in> set c. \<bar>x\<bar> \<le> 0.9)"
    by (rule conjunct2 [OF conjunct2 [OF conjunct2 [OF conjunct2 [OF conjunct2]]]])
  with mixed have "\<forall>c \<in> set (channelData (exampleMix (1 / 2))). \<forall>x \<in> set c. \<bar>x\<bar> \<le> 0.9"
    by (rule rev_mp)
  with channel' sample' have "\<bar>1 / 2 :: real\<bar> \<le> 0.9"
    by (meson bspec)
  with channel sample loud peak scaled quiet unchanged mixed channel' sample' show ?thesis
    by (intro conjI)
qed

subsection \<open>Pauses of the markup\<close>

lemma breakTag_parts:
  "latin1 ''<break time=\"'' = [0x3C, 0x62, 0x72, 0x65, 0x61, 0x6B, 0x20, 0x74, 0x69, 0x6D, 0x65, 0x3D, 0x22]"
  "latin1 ''ms\"/>'' = [0x6D, 0x73, 0x22, 0x2F, 0x3E]"
  by (simp_all add: latin1_def)

lemma breakTag_no_comma:
  "0x2C \<notin> set (numberToString p d) \<Longrightarrow> 0x2C \<notin> set (breakTag p d)"
  by (simp add: breakTag_def breakTag_parts)

lemma breakTag_no_sentence_end:
  "set (numberToString p d) \<inter> {0x2E, 0x21, 0x3F} = {}
   \<Longrightarrow> set (breakTag p d) \<inter> {0x2E, 0x21, 0x3F} = {}"
  by (simp add: breakTag_def breakTag_parts Int_Un_distrib2)

lemma replaceSentenceEnds_append:
  "replaceSentenceEnds p pd (xs @ ys) = replaceSentenceEnds p pd xs @ replaceSentenceEnds p pd ys"
  by (simp add: replaceSentenceEnds_def)

lemma replaceCommas_append:
  "replaceCommas p pd (xs @ ys) = replaceCommas p pd xs @ replaceCommas p pd ys"
  by (simp add: replaceCommas_def)

lemma replaceSentenceEnds_plain:
  "set xs \<inter> {0x2E, 0x21, 0x3F} = {} \<Longrightarrow> replaceSentenceEnds p pd xs = xs"
  by (induction xs) (simp_all add: replaceSentenceEnds_def)

lemma replaceCommas_plain:
  "0x2C \<notin> set xs \<Longrightarrow> replaceCommas p pd xs = xs"
  by (induction xs) (simp_all add: replaceCommas_def)

lemma replaceSentenceEnds_Cons:
  "replaceSentenceEnds p pd (c # cs) =
     (if c \<in> {0x2E, 0x21, 0x3F} then c # breakTag p (matchDuration pd c) else [c])
     @ replaceSentenceEnds p pd cs"
  by (simp add: replaceSentenceEnds_def)

lemma replaceCommas_Cons:
  "replaceCommas p pd (c # cs) =
     (if c = 0x2C then c # breakTag p (binary64 (pd * binary64 0.7)) else [c])
     @ replaceCommas p pd cs"
  by (simp add: replaceCommas_def)

lemma passes_Nil:
  "replaceSentenceEnds p pd [] = []" "replaceCommas p pd [] = []"
  by (simp_all add: replaceSentenceEnds_def replaceCommas_def)

lemma digit_set: "n < 10 \<Longrightarrow> n \<in> {0, 1, 2, 3, 4, 5, 6, 7, 8, 9 :: nat}"
  by (simp add: numeral_eq_Suc less_Suc_eq) 

lemma digit_word:
  assumes "n < 10"
  shows "(0x30 + word_of_nat n :: 16 word) \<in> {0x30, 0x31, 0x32, 0x33, 0x34, 0x35, 0x36, 0x37, 0x38, 0x39}"
proof -
  from assms have "n \<in> {0, 1, 2, 3, 4, 5, 6, 7, 8, 9}"
    by (rule digit_set)
  then show ?thesis
    by (elim insertE emptyE) simp_all
qed

lemma decimal_digits:
  "set (decimal n) \<subseteq> {0x30, 0x31, 0x32, 0x33, 0x34, 0x35, 0x36, 0x37, 0x38, 0x39}"
proof (induction n rule: decimal.induct)
  case (1 n)
  show ?case
  proof (cases "n < 10")
    case True
    then have "decimal n = [0x30 + word_of_nat n]"
      by (subst decimal.simps) simp
    with digit_word [OF True] show ?thesis
      by simp
  next
    case False
    then have unfold: "decimal n = decimal (n div 10) @ [0x30 + word_of_nat (n mod 10)]"
      by (subst decimal.simps) simp
    have "(0x30 + word_of_nat (n mod 10) :: 16 word)
          \<in> {0x30, 0x31, 0x32, 0x33, 0x34, 0x35, 0x36, 0x37, 0x38, 0x39}"
      by (rule digit_word) simp
    with "1.IH" [OF False] show ?thesis
      unfolding unfold by simp
  qed
qed

lemma decimal_no_comma: "0x2C \<notin> set (decimal n)"
  using decimal_digits [of n] by auto

lemma decimal_no_sentence_end: "set (decimal n) \<inter> {0x2E, 0x21, 0x3F} = {}"
  using decimal_digits [of n] by auto

lemma numberToString_no_comma:
  "\<forall>d. 0x2C \<notin> set (p d) \<Longrightarrow> 0x2C \<notin> set (numberToString p d)"
  by (simp add: numberToString_def decimal_no_comma)

lemma replaceCommas_tag:
  "\<forall>d. 0x2C \<notin> set (p d) \<Longrightarrow> replaceCommas p pd (breakTag p d) = breakTag p d"
  by (simp add: replaceCommas_plain breakTag_no_comma numberToString_no_comma)

text \<open>One character through the last two passes.\<close>

lemma two_passes_Cons:
  assumes "\<forall>d. 0x2C \<notin> set (p d)"
  shows "replaceCommas p pd (replaceSentenceEnds p pd (a # cs)) =
     pauseAfter p pd a @ replaceCommas p pd (replaceSentenceEnds p pd cs)"
  using assms
  by (simp add: replaceSentenceEnds_Cons replaceCommas_append replaceCommas_Cons
      replaceCommas_tag matchDuration_def passes_Nil pauseAfter_def)

lemma three_passes:
  assumes comma: "\<forall>d. 0x2C \<notin> set (p d)"
    and plain: "set (numberToString p (binary64 (pd * binary64 1.2))) \<inter> {0x2E, 0x21, 0x3F} = {}"
  shows "replaceCommas p pd
           (replaceSentenceEnds p pd
              (replaceEllipsis (breakTag p (binary64 (pd * binary64 1.2))) cs))
         = pausesInOnePass p pd cs"
  using assms
proof (induction p pd cs rule: pausesInOnePass.induct)
  case (1 p base a b c cs)
  let ?tag = "breakTag p (binary64 (base * binary64 1.2))"
  show ?case
  proof (cases "a = 0x2E \<and> b = 0x2E \<and> c = 0x2E")
    case True
    have tag1: "replaceSentenceEnds p base ?tag = ?tag"
      using "1.prems"(2) by (intro replaceSentenceEnds_plain breakTag_no_sentence_end)
    have tag2: "replaceCommas p base ?tag = ?tag"
      using "1.prems"(1) by (rule replaceCommas_tag)
    have rest: "replaceCommas p base (replaceSentenceEnds p base (replaceEllipsis ?tag cs))
          = pausesInOnePass p base cs"
      using True "1.prems" by (intro "1.IH"(1))
    from True have lhs: "replaceEllipsis ?tag (a # b # c # cs) = ?tag @ replaceEllipsis ?tag cs"
      by simp
    from True have rhs: "pausesInOnePass p base (a # b # c # cs) = ?tag @ pausesInOnePass p base cs"
      by simp
    show ?thesis
      unfolding lhs rhs replaceSentenceEnds_append replaceCommas_append tag1 tag2 rest
      by (rule refl)
  next
    case False
    have rest: "replaceCommas p base (replaceSentenceEnds p base (replaceEllipsis ?tag (b # c # cs)))
          = pausesInOnePass p base (b # c # cs)"
      using False "1.prems" by (intro "1.IH"(2))
    from False have lhs: "replaceEllipsis ?tag (a # b # c # cs) = a # replaceEllipsis ?tag (b # c # cs)"
      by auto
    from False have rhs: "pausesInOnePass p base (a # b # c # cs)
        = pauseAfter p base a @ pausesInOnePass p base (b # c # cs)"
      by auto
    show ?thesis
      unfolding lhs rhs two_passes_Cons [OF "1.prems"(1)] rest by (rule refl)
  qed
next
  case (2 p base a b)
  then show ?case
    by (simp add: two_passes_Cons passes_Nil)
next
  case (3 p base a)
  then show ?case
    by (simp add: two_passes_Cons passes_Nil)
next
  case (4 p base)
  then show ?case
    by (simp add: passes_Nil)
qed

text \<open>Without an ellipsis in the text the first pass changes nothing.\<close>

lemma two_passes_without_ellipsis:
  assumes "\<forall>d. 0x2C \<notin> set (p d)"
    and "\<not> containsEllipsis cs"
  shows "replaceCommas p pd (replaceSentenceEnds p pd (replaceEllipsis r cs))
         = pausesInOnePass p pd cs"
  using assms
proof (induction p pd cs rule: pausesInOnePass.induct)
  case (1 p base a b c cs)
  from "1.prems"(2) have here: "\<not> (a = 0x2E \<and> b = 0x2E \<and> c = 0x2E)"
    and later: "\<not> containsEllipsis (b # c # cs)"
    by simp_all
  have rest: "replaceCommas p base (replaceSentenceEnds p base (replaceEllipsis r (b # c # cs)))
        = pausesInOnePass p base (b # c # cs)"
    using here "1.prems"(1) later by (intro "1.IH"(2))
  from here have lhs: "replaceEllipsis r (a # b # c # cs) = a # replaceEllipsis r (b # c # cs)"
    by auto
  from here have rhs: "pausesInOnePass p base (a # b # c # cs)
      = pauseAfter p base a @ pausesInOnePass p base (b # c # cs)"
    by auto
  show ?case
    unfolding lhs rhs two_passes_Cons [OF "1.prems"(1)] rest by (rule refl)
next
  case (2 p base a b)
  then show ?case
    by (simp add: two_passes_Cons passes_Nil)
next
  case (3 p base a)
  then show ?case
    by (simp add: two_passes_Cons passes_Nil)
next
  case (4 p base)
  then show ?case
    by (simp add: passes_Nil)
qed

text \<open>
  C6, as the code has it. The base duration of a pause is the smaller of 1500 ms and of
  \<open>1000 + intensity * 700\<close> ms computed in doubles, which is that sum up to two roundings;
  it is at most 1500 ms, and 1500 ms from the intensity 5/7 on. When the platform prints no comma
  in a number, and the cleaned text has no ellipsis or the duration of the ellipsis pause
  is printed without a decimal point (without any of \<open>.\<close>, \<open>!\<close> and \<open>?\<close>), the three
  replacements amount to one pass over the cleaned text in which an ellipsis becomes a
  pause of 1.2 times the base duration and \<open>!\<close>, \<open>?\<close>, \<open>.\<close> and \<open>,\<close> are followed by pauses of
  1.5, 1.1, 1 and 0.7 times the base duration, the products taken in doubles.
\<close>

theorem pause_markup:
  "pauseDuration analysis \<le> 1500
   \<and> pauseDuration analysis = min 1500 (binary64 (1000 + binary64 (intensity analysis * 700)))
   \<and> \<bar>binary64 (1000 + binary64 (intensity analysis * 700)) - (1000 + intensity analysis * 700)\<bar>
       \<le> (\<bar>1000 + binary64 (intensity analysis * 700)\<bar> + \<bar>intensity analysis * 700\<bar>) / 2 ^ 53
   \<and> (5 / 7 \<le> intensity analysis \<longrightarrow> pauseDuration analysis = 1500)
   \<and> ((\<forall>d. 0x2C \<notin> set (p d))
        \<and> (\<not> containsEllipsis (trim (collapseSpaces str))
             \<or> set (numberToString p (binary64 (pauseDuration analysis * binary64 1.2)))
                 \<inter> {0x2E, 0x21, 0x3F} = {})
        \<longrightarrow> addPauses p str analysis
            = pausesInOnePass p (pauseDuration analysis) (trim (collapseSpaces str)))"
proof -
  define x where "x = intensity analysis * 700"
  have refines: "(\<forall>d. 0x2C \<notin> set (p d))
        \<and> (\<not> containsEllipsis (trim (collapseSpaces str))
             \<or> set (numberToString p (binary64 (pauseDuration analysis * binary64 1.2)))
                 \<inter> {0x2E, 0x21, 0x3F} = {})
        \<longrightarrow> addPauses p str analysis
            = pausesInOnePass p (pauseDuration analysis) (trim (collapseSpaces str))"
  proof (intro impI, elim conjE disjE)
    assume "\<forall>d. 0x2C \<notin> set (p d)" and "\<not> containsEllipsis (trim (collapseSpaces str))"
    then show "addPauses p str analysis
            = pausesInOnePass p (pauseDuration analysis) (trim (collapseSpaces str))"
      unfolding addPauses_def Let_def by (rule two_passes_without_ellipsis)
  next
    assume "\<forall>d. 0x2C \<notin> set (p d)"
      and "set (numberToString p (binary64 (pauseDuration analysis * binary64 1.2)))
                 \<inter> {0x2E, 0x21, 0x3F} = {}"
    then show "addPauses p str analysis
            = pausesInOnePass p (pauseDuration analysis) (trim (collapseSpaces str))"
      unfolding addPauses_def Let_def by (rule three_passes)
  qed
  have capped: "pauseDuration analysis \<le> 1500"
    by (simp add: pauseDuration_def)
  have base: "pauseDuration analysis
      = min 1500 (binary64 (1000 + binary64 (intensity analysis * 700)))"
    by (simp add: pauseDuration_def)
  have "\<bar>binary64 (1000 + binary64 x) - (1000 + binary64 x)\<bar> \<le> \<bar>1000 + binary64 x\<bar> / 2 ^ 53"
    by (rule binary64_error)
  moreover have "\<bar>binary64 x - x\<bar> \<le> \<bar>x\<bar> / 2 ^ 53"
    by (rule binary64_error)
  ultimately have "\<bar>binary64 (1000 + binary64 x) - (1000 + x)\<bar>
      \<le> \<bar>1000 + binary64 x\<bar> / 2 ^ 53 + \<bar>x\<bar> / 2 ^ 53"
    by linarith
  then have near: "\<bar>binary64 (1000 + binary64 (intensity analysis * 700))
         - (1000 + intensity analysis * 700)\<bar>
       \<le> (\<bar>1000 + binary64 (intensity analysis * 700)\<bar> + \<bar>intensity analysis * 700\<bar>) / 2 ^ 53"
    by (simp add: x_def add_divide_distrib)
  have top: "5 / 7 \<le> intensity analysis \<longrightarrow> pauseDuration analysis = 1500"
  proof
    assume "5 / 7 \<le> intensity analysis"
    then have "500 \<le> x"
      by (simp add: x_def)
    moreover have "binary64 500 = 500"
      by (simp add: binary64_eval)
    ultimately have "500 \<le> binary64 x"
      by (intro binary64_ge_double)
    then have "1500 \<le> 1000 + binary64 x"
      by simp
    moreover have "binary64 1500 = 1500"
      by (simp add: binary64_eval)
    ultimately have "1500 \<le> binary64 (1000 + binary64 x)"
      by (intro binary64_ge_double)
    then show "pauseDuration analysis = 1500"
      by (simp add: pauseDuration_def x_def)
  qed
  from capped base near top refines show ?thesis
    by (intro conjI)
qed

text \<open>
  At the intensity 0 the base duration is 1000 ms and the five pauses last 1200, 700, 1500,
  1100 and 1000 ms: all are integers, which are printed as their digits, so no other
  number is printed and the parameter is not consulted.
\<close>

theorem pause_markup_witness:
  "5 / 7 \<le> intensity \<lparr>intensity = 1, contextualMood = latin1 ''passion'', emphasis = []\<rparr>
   \<and> pauseDuration \<lparr>intensity = 1, contextualMood = latin1 ''passion'', emphasis = []\<rparr> = 1500
   \<and> pauseDuration \<lparr>intensity = 0, contextualMood = latin1 ''calme'', emphasis = []\<rparr> = 1000
   \<and> (\<forall>d :: real. 0x2C \<notin> set ([] :: js_string))
   \<and> binary64 (pauseDuration \<lparr>intensity = 0, contextualMood = latin1 ''calme'', emphasis = []\<rparr>
         * binary64 1.2) = 1200
   \<and> set (numberToString (\<lambda>d. [])
          (binary64 (pauseDuration \<lparr>intensity = 0, contextualMood = latin1 ''calme'', emphasis = []\<rparr>
             * binary64 1.2)))
         \<inter> {0x2E, 0x21, 0x3F} = {}
   \<and> addPauses (\<lambda>d. []) (latin1 '' Oui...  viens, ici! Encore? Oui. '')
         \<lparr>intensity = 0, contextualMood = latin1 ''calme'', emphasis = []\<rparr>
       = latin1 (''Oui<break time=\"1200ms\"/> viens,<break time=\"700ms\"/> ici!<break time=\"1500ms\"/>''
                 @ '' Encore?<break time=\"1100ms\"/> Oui.<break time=\"1000ms\"/>'')"
proof -
  let ?calm = "\<lparr>intensity = 0, contextualMood = latin1 ''calme'', emphasis = []\<rparr>"
  let ?high = "\<lparr>intensity = 1, contextualMood = latin1 ''passion'', emphasis = []\<rparr>"
  let ?p = "\<lambda>d :: real. [] :: js_string"
  let ?txt = "latin1 '' Oui...  viens, ici! Encore? Oui. ''"
  have top: "5 / 7 \<le> intensity ?high"
    by simp
  have comma: "\<forall>d. 0x2C \<notin> set (?p d)"
    by simp
  have base: "pauseDuration ?calm = 1000"
    by (simp add: pauseDuration_def binary64_eval)
  have durations: "binary64 (1000 * binary64 1.2) = 1200" "binary64 (1000 * binary64 0.7) = 700"
    "binary64 (1000 * binary64 1.5) = 1500" "binary64 (1000 * binary64 1.1) = 1100"
    by (simp_all add: binary64_eval)
  have scaled: "binary64 (1000 * binary64 (6 / 5)) = 1200" "binary64 (1000 * binary64 (7 / 10)) = 700"
    "binary64 (1000 * binary64 (3 / 2)) = 1500" "binary64 (1000 * binary64 (11 / 10)) = 1100"
    by (simp_all add: binary64_eval)
  have printed: "numberToString ?p 1200 = latin1 ''1200''" "numberToString ?p 700 = latin1 ''700''"
    "numberToString ?p 1500 = latin1 ''1500''" "numberToString ?p 1100 = latin1 ''1100''"
    "numberToString ?p 1000 = latin1 ''1000''"
    by (simp_all add: numberToString_def decimal.simps latin1_def)
  have plain: "set (numberToString ?p (binary64 (pauseDuration ?calm * binary64 1.2)))
      \<inter> {0x2E, 0x21, 0x3F} = {}"
    unfolding base durations printed by (simp add: latin1_def)
  note calm = pause_markup [where analysis = ?calm and p = ?p and str = ?txt]
  note high = pause_markup [where analysis = ?high and p = ?p and str = ?txt]
  note capped = high [THEN conjunct2, THEN conjunct2, THEN conjunct2, THEN conjunct1, THEN mp, OF top]
  note one_pass = calm [THEN conjunct2, THEN conjunct2, THEN conjunct2, THEN conjunct2, THEN mp,
      OF conjI [OF comma disjI2 [OF plain]]]
  have clean: "trim (collapseSpaces ?txt) = latin1 ''Oui... viens, ici! Encore? Oui.''"
    by (simp add: trim_def latin1_def is_space_def)
  have "pausesInOnePass ?p 1000 (latin1 ''Oui... viens, ici! Encore? Oui.'')
        = latin1 (''Oui<break time=\"1200ms\"/> viens,<break time=\"700ms\"/> ici!<break time=\"1500ms\"/>''
                 @ '' Encore?<break time=\"1100ms\"/> Oui.<break time=\"1000ms\"/>'')"
    unfolding latin1_def by (simp add: breakTag_def pauseAfter_def scaled printed latin1_def)
  with one_pass have marked: "addPauses ?p ?txt ?calm
       = latin1 (''Oui<break time=\"1200ms\"/> viens,<break time=\"700ms\"/> ici!<break time=\"1500ms\"/>''
                 @ '' Encore?<break time=\"1100ms\"/> Oui.<break time=\"1000ms\"/>'')"
    unfolding base clean by simp
  have ellipsis: "binary64 (pauseDuration ?calm * binary64 1.2) = 1200"
    unfolding base by (rule durations)
  from top capped base comma ellipsis plain marked show ?thesis
    by (intro conjI)
qed

text \<open>
  The claim as worded fails at the intensity 1: the base duration is 1500 ms and not
  1700 ms, and the pause after \<open>!\<close> lasts 2250 ms and not 2550 ms.
\<close>

theorem pause_duration_counterexample:
  "pauseDuration \<lparr>intensity = 1, contextualMood = latin1 ''passion'', emphasis = []\<rparr> = 1500
   \<and> addPauses (\<lambda>d. []) (latin1 ''Oui!'')
        \<lparr>intensity = 1, contextualMood = latin1 ''passion'', emphasis = []\<rparr>
       = latin1 ''Oui!<break time=\"2250ms\"/>''"
proof -
  have duration: "pauseDuration \<lparr>intensity = 1, contextualMood = latin1 ''passion'', emphasis = []\<rparr> = 1500"
    by (simp add: pauseDuration_def binary64_eval)
  have scaled: "binary64 (1500 * binary64 (3 / 2)) = 2250"
    by (simp add: binary64_eval)
  have printed: "numberToString (\<lambda>d. []) 2250 = latin1 ''2250''"
    by (simp add: numberToString_def decimal.simps latin1_def)
  have clean: "trim (collapseSpaces (latin1 ''Oui!'')) = latin1 ''Oui!''"
    by (simp add: trim_def latin1_def is_space_def)
  show ?thesis
    unfolding addPauses_def Let_def duration clean
    by (simp add: latin1_def replaceSentenceEnds_def replaceCommas_def matchDuration_def
        breakTag_def printed scaled)
qed

end
